theory Spec2Isabelle
  imports Complex_Main
begin

section \<open>JavaScript string operations used by the launcher\<close>

text \<open>
  Strings of the source are modelled as \<open>string\<close> (lists of characters). A value that
  may be \<open>undefined\<close> in the source is an \<open>option\<close>; where the source coerces such a
  value to a string (template literals, the pattern argument of \<open>replaceAll\<close>, the
  argument of \<open>includes\<close>), \<open>js_string\<close> gives the text \<open>undefined\<close>, as JavaScript does.
\<close>

definition js_string :: "string option \<Rightarrow> string" where
  "js_string v = (case v of None \<Rightarrow> ''undefined'' | Some s \<Rightarrow> s)"

text \<open>\<open>s.split(c)\<close> for a one-character separator: the result is never empty.\<close>

fun split_on :: "char \<Rightarrow> string \<Rightarrow> string list" where
  "split_on c [] = [[]]"
| "split_on c (x # xs) =
     (if x = c then [] # split_on c xs
      else (case split_on c xs of
              [] \<Rightarrow> [[x]]
            | w # ws \<Rightarrow> (x # w) # ws))"

text \<open>\<open>xs[i]\<close> on an array: \<open>undefined\<close> out of range.\<close>

definition js_index :: "'a list \<Rightarrow> nat \<Rightarrow> 'a option" where
  "js_index xs i = (if i < length xs then Some (xs ! i) else None)"

text \<open>\<open>xs.pop()\<close> as a value: the last element, \<open>undefined\<close> on an empty array.\<close>

definition js_pop :: "'a list \<Rightarrow> 'a option" where
  "js_pop xs = (if xs = [] then None else Some (last xs))"

text \<open>\<open>p\<close> is a prefix of \<open>s\<close>.\<close>

fun starts_with :: "string \<Rightarrow> string \<Rightarrow> bool" where
  "starts_with [] s = True"
| "starts_with (p # ps) [] = False"
| "starts_with (p # ps) (x # xs) = (p = x \<and> starts_with ps xs)"

text \<open>\<open>s.includes(p)\<close>: \<open>p\<close> occurs in \<open>s\<close> as a contiguous substring.\<close>

fun js_includes :: "string \<Rightarrow> string \<Rightarrow> bool" where
  "js_includes [] p = (p = [])"
| "js_includes (x # xs) p = (starts_with p (x # xs) \<or> js_includes xs p)"

text \<open>
  \<open>s.replace(p, r)\<close> with a string pattern: only the first (leftmost) occurrence is
  replaced. The replacements used by the launcher contain no \<open>$\<close>, so the replacement
  text is taken literally.
\<close>

fun replace_first :: "string \<Rightarrow> string \<Rightarrow> string \<Rightarrow> string" where
  "replace_first [] p r = (if p = [] then r else [])"
| "replace_first (x # xs) p r =
     (if starts_with p (x # xs) then r @ drop (length p) (x # xs)
      else x # replace_first xs p r)"

text \<open>
  \<open>s.replaceAll(p, r)\<close> with a string pattern: occurrences are found left to right and
  do not overlap; the scan resumes after each replaced occurrence. With the empty
  pattern the replacement is inserted before every character and at the end.
\<close>

function replaceAll :: "string \<Rightarrow> string \<Rightarrow> string \<Rightarrow> string" where
  "replaceAll [] p r = (if p = [] then r else [])"
| "replaceAll (x # xs) p r =
     (if p = [] then r @ x # replaceAll xs p r
      else if starts_with p (x # xs) then r @ replaceAll (drop (length p) (x # xs)) p r
      else x # replaceAll xs p r)"
  by pat_completeness auto
termination
  by (relation "measure (\<lambda>(s, p, r). length s)") auto

text \<open>\<open>s.replace(/c/g, d)\<close> for a single literal character \<open>c\<close>.\<close>

definition replace_char :: "char \<Rightarrow> char \<Rightarrow> string \<Rightarrow> string" where
  "replace_char c d s = map (\<lambda>x. if x = c then d else x) s"

text \<open>
  \<open>s.replace(/p/g, r)\<close> for a regular expression that is the literal text \<open>p\<close>, without
  groups, and a replacement text \<open>r\<close> that is not a literal of the program. In the
  replacement \<open>$$\<close> stands for \<open>$\<close>, \<open>$&\<close> for the matched text, \<open>$`\<close> for the part of \<open>s\<close>
  before the match and \<open>$'\<close> for the part after it; as the expression has no groups,
  every other \<open>$\<close> is literal. \<open>expand_replacement r m pre post\<close> is the text put in
  the place of the match \<open>m\<close>. Matches are found left to right in \<open>s\<close> and do not
  overlap.
\<close>

fun expand_replacement :: "string \<Rightarrow> string \<Rightarrow> string \<Rightarrow> string \<Rightarrow> string" where
  "expand_replacement [] m pre post = []"
| "expand_replacement [c] m pre post = [c]"
| "expand_replacement (c # d # r) m pre post =
     (if c = CHR ''$'' \<and> d = CHR ''$'' then CHR ''$'' # expand_replacement r m pre post
      else if c = CHR ''$'' \<and> d = CHR ''&'' then m @ expand_replacement r m pre post
      else if c = CHR ''$'' \<and> d = CHR 0x60 then pre @ expand_replacement r m pre post
      else if c = CHR ''$'' \<and> d = CHR 0x27 then post @ expand_replacement r m pre post
      else c # expand_replacement (d # r) m pre post)"

function replace_global :: "string \<Rightarrow> string \<Rightarrow> string \<Rightarrow> string \<Rightarrow> string" where
  "replace_global pre [] p r = []"
| "replace_global pre (x # xs) p r =
     (if p \<noteq> [] \<and> starts_with p (x # xs)
      then expand_replacement r p pre (drop (length p) (x # xs))
           @ replace_global (pre @ p) (drop (length p) (x # xs)) p r
      else x # replace_global (pre @ [x]) xs p r)"
  by pat_completeness auto
termination
  by (relation "measure (\<lambda>(pre, s, p, r). length s)") auto

definition fill_placeholder :: "string \<Rightarrow> string \<Rightarrow> string \<Rightarrow> string" where
  "fill_placeholder s p r = replace_global [] s p r"

text \<open>\<open>xs.join(sep)\<close>.\<close>

fun join :: "string \<Rightarrow> string list \<Rightarrow> string" where
  "join sep [] = []"
| "join sep [x] = x"
| "join sep (x # y # ys) = x @ sep @ join sep (y # ys)"

section \<open>Launch options: the download pool size (Launch.Launch)\<close>

text \<open>
  A number of the language: a finite value, NaN, or one of the two infinities. A
  comparison with NaN on either side is false.
\<close>

datatype js_number = Finite real | NaN | PosInfinity | NegInfinity

fun js_less :: "js_number \<Rightarrow> js_number \<Rightarrow> bool" where
  "js_less (Finite a) (Finite b) = (a < b)"
| "js_less (Finite a) PosInfinity = True"
| "js_less NegInfinity (Finite b) = True"
| "js_less NegInfinity PosInfinity = True"
| "js_less x y = False"

text \<open>
  The option \<open>downloadFileMultiple\<close> as the caller passes it. The source uses it in
  comparisons only (\<open>< 1\<close>, \<open>> 30\<close>, \<open>> files.length\<close>, \<open>i < limit\<close>), and a comparison
  sees the number its operand coerces to; so a value is modelled by that number: NaN
  for NaN itself and for every value that coerces to it (a text that is no numeral, an
  object), 0 for \<open>null\<close>. Two kinds of value are kept apart: \<open>undefined\<close>, which coerces to
  NaN in the guards of \<open>Launch.Launch\<close> but makes \<open>downloadFileMultiple\<close> fall back on its
  default limit, and a value whose coercion throws a TypeError (a Symbol).
\<close>

datatype pool_size = Undefined | Numeric js_number | Uncoercible

text \<open>
  The fields of the merged options object that \<open>Launch.Launch\<close> and \<open>start\<close> read.
  \<open>authenticator\<close> is truthy exactly when a credential record is present; \<open>opt_path\<close> is
  \<open>options.path\<close> after \<open>path.resolve\<close>; \<open>opt_instance\<close> is \<open>None\<close> for \<open>null\<close>, the default.
\<close>

record credential =
  cred_name :: string
  uuid :: "string option"
  access_token :: "string option"
  client_token :: "string option"
  xboxAccount_xuid :: "string option"

record launch_options =
  opt_path :: string
  opt_instance :: "string option"
  authenticator :: "credential option"
  downloadFileMultiple :: pool_size

datatype launch_error = AuthenticatorNotFound | CoercionThrows

text \<open>\<open>v < c\<close> and \<open>v > c\<close> for an option value that can be coerced.\<close>

definition pool_less :: "pool_size \<Rightarrow> js_number \<Rightarrow> bool" where
  "pool_less v c = (case v of Numeric x \<Rightarrow> js_less x c | _ \<Rightarrow> False)"

definition pool_greater :: "pool_size \<Rightarrow> js_number \<Rightarrow> bool" where
  "pool_greater v c = (case v of Numeric x \<Rightarrow> js_less c x | _ \<Rightarrow> False)"

text \<open>
  \<open>Launch.Launch\<close> up to the call of \<open>start\<close>: without an authenticator the function
  ends on its error event and \<open>start\<close> is not called; otherwise the two guards on
  \<open>downloadFileMultiple\<close> run in order and the options are handed to \<open>start\<close>. A value
  that cannot be coerced makes the first comparison throw.
\<close>

definition Launch_options :: "launch_options \<Rightarrow> launch_error + launch_options" where
  "Launch_options opt =
     (if authenticator opt = None then Inl AuthenticatorNotFound
      else if downloadFileMultiple opt = Uncoercible then Inl CoercionThrows
      else
        let o1 = (if pool_less (downloadFileMultiple opt) (Finite 1)
                  then opt\<lparr>downloadFileMultiple := Numeric (Finite 1)\<rparr> else opt);
            o2 = (if pool_greater (downloadFileMultiple o1) (Finite 30)
                  then o1\<lparr>downloadFileMultiple := Numeric (Finite 30)\<rparr> else o1)
        in Inr o2)"


section \<open>Maven coordinates (getPathLibraries)\<close>

text \<open>
  The exceptions of the model: a TypeError of the language, and the error that Node's
  \<open>EventEmitter\<close> throws when \<open>emit('error', e)\<close> finds no listener for \<open>error\<close>.
\<close>

datatype js_error = TypeError | UnhandledError

record lib_path =
  lp_path :: string
  lp_name :: string
  lp_version :: string

text \<open>\<open>v || d\<close> for a string that may be \<open>undefined\<close>: the empty string is falsy too.\<close>

definition or_default :: "string option \<Rightarrow> string \<Rightarrow> string" where
  "or_default v d = (case v of None \<Rightarrow> d | Some s \<Rightarrow> if s = [] then d else s)"

text \<open>
  \<open>getPathLibraries(main, nativeString, forceExt)\<close>. With fewer than three segments
  \<open>libSplit[2]\<close> is \<open>undefined\<close> and \<open>fileName.includes\<close> throws a TypeError. The fields
  \<open>path\<close>, \<open>name\<close> and \<open>version\<close> of the returned object are \<open>lp_path\<close>, \<open>lp_name\<close> and
  \<open>lp_version\<close>.
\<close>

definition getPathLibraries :: "string \<Rightarrow> string option \<Rightarrow> string option \<Rightarrow> js_error + lib_path" where
  "getPathLibraries main nativeString forceExt =
     (let libSplit = split_on CHR '':'' main in
      case js_index libSplit 2 of
        None \<Rightarrow> Inl TypeError
      | Some v \<Rightarrow>
          let fileName = (case js_index libSplit 3 of
                            None \<Rightarrow> v
                          | Some c \<Rightarrow> if c = [] then v else v @ ''-'' @ c);
              finalFileName = (if js_includes fileName ''@''
                               then replace_first fileName ''@'' ''.''
                               else fileName @ or_default nativeString [] @ or_default forceExt ''.jar'');
              pathLib = replace_char CHR ''.'' CHR ''/'' (js_string (js_index libSplit 0)) @ ''/''
                        @ js_string (js_index libSplit 1) @ ''/''
                        @ js_string (js_index (split_on CHR ''@'' v) 0)
          in Inr \<lparr>lp_path = pathLib,
                  lp_name = js_string (js_index libSplit 1) @ ''-'' @ finalFileName,
                  lp_version = v\<rparr>)"

text \<open>
  The version segment without an \<open>@ext\<close> suffix: what the source itself uses for the
  directory (\<open>libSplit[2].split('@')[0]\<close>).
\<close>

definition bare_version :: "string \<Rightarrow> string" where
  "bare_version v = takeWhile (\<lambda>x. x \<noteq> CHR ''@'') v"

section \<open>Library rules (skipLibrary)\<close>

record os_clause =
  os_name :: "string option"

text \<open>
  A rule of a library entry. \<open>rule_os\<close> and \<open>rule_features\<close> are \<open>None\<close> when the rule
  has no such clause; a present clause is a truthy object whatever it holds.
\<close>

record rule =
  rule_action :: string
  rule_os :: "os_clause option"
  rule_features :: "(string \<times> bool) list option"

record artifact =
  art_url :: "string option"
  art_size :: nat

record library =
  lib_name :: string
  lib_rules :: "rule list option"
  lib_natives :: "(string \<times> string) list option"
  lib_artifact :: "artifact option"

text \<open>\<open>LibMap[process.platform]\<close>: \<open>undefined\<close> for any other platform.\<close>

definition LibMap :: "string \<Rightarrow> string option" where
  "LibMap platform =
     (if platform = ''win32'' then Some ''windows''
      else if platform = ''darwin'' then Some ''osx''
      else if platform = ''linux'' then Some ''linux''
      else None)"

text \<open>\<open>(rule.os && rule.os.name === LibMap[process.platform]) || !rule.os\<close>\<close>

definition os_applies :: "string \<Rightarrow> rule \<Rightarrow> bool" where
  "os_applies platform r =
     (case rule_os r of None \<Rightarrow> True | Some c \<Rightarrow> os_name c = LibMap platform)"

text \<open>The body of the loop over \<open>lib.rules\<close>, with \<open>shouldSkip\<close> as the accumulator.\<close>

fun skipLibrary_loop :: "string \<Rightarrow> bool \<Rightarrow> rule list \<Rightarrow> bool" where
  "skipLibrary_loop platform shouldSkip [] = shouldSkip"
| "skipLibrary_loop platform shouldSkip (r # rs) =
     (if rule_features r \<noteq> None then skipLibrary_loop platform shouldSkip rs
      else if rule_action r = ''allow'' \<and> os_applies platform r
        then skipLibrary_loop platform False rs
      else if rule_action r = ''disallow'' \<and> os_applies platform r
        then skipLibrary_loop platform True rs
      else skipLibrary_loop platform shouldSkip rs)"

definition skipLibrary :: "string \<Rightarrow> library \<Rightarrow> bool" where
  "skipLibrary platform lib =
     (case lib_rules lib of
        None \<Rightarrow> False
      | Some rs \<Rightarrow> skipLibrary_loop platform True rs)"

text \<open>
  A rule that changes \<open>shouldSkip\<close>: it has no \<open>features\<close> clause, its action is
  \<open>allow\<close> or \<open>disallow\<close>, and it has no OS clause or one that names the platform.
\<close>

definition rule_applies :: "string \<Rightarrow> rule \<Rightarrow> bool" where
  "rule_applies pf r =
     (rule_features r = None \<and> (rule_action r = ''allow'' \<or> rule_action r = ''disallow'')
      \<and> os_applies pf r)"

text \<open>
  Rule evaluation as the specification words it: the library starts allowed; scanning
  the rules in order, an \<open>allow\<close> rule with no OS clause or with a matching one allows,
  a \<open>disallow\<close> rule whose OS clause matches disallows.
\<close>

definition os_clause_matches :: "string \<Rightarrow> rule \<Rightarrow> bool" where
  "os_clause_matches platform r =
     (case rule_os r of None \<Rightarrow> False | Some c \<Rightarrow> os_name c = LibMap platform)"

fun spec_allowed_loop :: "string \<Rightarrow> bool \<Rightarrow> rule list \<Rightarrow> bool" where
  "spec_allowed_loop platform allowed [] = allowed"
| "spec_allowed_loop platform allowed (r # rs) =
     (if rule_action r = ''allow'' \<and> (rule_os r = None \<or> os_clause_matches platform r)
        then spec_allowed_loop platform True rs
      else if rule_action r = ''disallow'' \<and> os_clause_matches platform r
        then spec_allowed_loop platform False rs
      else spec_allowed_loop platform allowed rs)"

definition spec_allowed :: "string \<Rightarrow> library \<Rightarrow> bool" where
  "spec_allowed platform lib =
     (case lib_rules lib of
        None \<Rightarrow> True
      | Some rs \<Rightarrow> spec_allowed_loop platform True rs)"


section \<open>Planning the Forge libraries (ForgeMC.downloadLibraries)\<close>

text \<open>
  What the function reads from outside: the platform, the resolved root directory
  (\<open>path.resolve\<close> of \<open>options.path\<close>), which files exist, the answer of the mirror
  probe for a relative URL (\<open>None\<close> when no mirror answers with status 200), and
  whether the \<open>ForgeMC\<close> object has a listener for its \<open>error\<close> event.
  \<open>path.resolve(root, 'libraries', p)\<close> is the root followed by \<open>/libraries/\<close> and \<open>p\<close>.
\<close>

record mirror_resp =
  mr_url :: string
  mr_size :: nat

record plan_env =
  platform :: string
  root :: string
  existsSync :: "string \<Rightarrow> bool"
  checkMirror :: "string \<Rightarrow> mirror_resp option"
  error_listener :: bool

record download_item =
  di_url :: string
  di_folder :: string
  di_path :: string
  di_name :: string
  di_size :: nat

datatype plan_event = Check nat nat | LibraryNotFound string

record plan_acc =
  checkCount :: nat
  downloadList :: "download_item list"
  totalSize :: nat
  plan_events :: "plan_event list"

text \<open>\<open>xs.findIndex(P)\<close>: \<open>-1\<close> when no element satisfies \<open>P\<close>.\<close>

fun findIndex :: "('a \<Rightarrow> bool) \<Rightarrow> 'a list \<Rightarrow> int" where
  "findIndex P [] = - 1"
| "findIndex P (x # xs) =
     (if P x then 0 else (let i = findIndex P xs in if i < 0 then - 1 else i + 1))"

text \<open>Removing duplicates by name: an entry stays when it is the first of its name.\<close>

definition dedupe_by_name :: "library list \<Rightarrow> library list" where
  "dedupe_by_name libraries =
     map snd (filter (\<lambda>(index, l). int index = findIndex (\<lambda>t. lib_name t = lib_name l) libraries)
                     (enumerate 0 libraries))"

definition skipForge :: "string list" where
  "skipForge = [''net.minecraftforge:forge:'', ''net.minecraftforge:minecraftforge:'']"

text \<open>\<open>!lib.downloads?.artifact?.url\<close>\<close>

definition no_artifact_url :: "library \<Rightarrow> bool" where
  "no_artifact_url lib =
     (case lib_artifact lib of
        None \<Rightarrow> True
      | Some a \<Rightarrow> (case art_url a of None \<Rightarrow> True | Some u \<Rightarrow> u = []))"

text \<open>
  \<open>lib.natives[Lib[process.platform]]\<close> when the library has natives; the key is coerced
  to a string. The result counts only when it is truthy (a non-empty string).
\<close>

definition nativesSuffix :: "string \<Rightarrow> library \<Rightarrow> string option" where
  "nativesSuffix pf lib =
     (case lib_natives lib of
        None \<Rightarrow> None
      | Some m \<Rightarrow> (case map_of m (js_string (LibMap pf)) of
                     None \<Rightarrow> None
                   | Some s \<Rightarrow> if s = [] then None else Some s))"

definition nativeString :: "string \<Rightarrow> library \<Rightarrow> string option" where
  "nativeString pf lib =
     (case nativesSuffix pf lib of None \<Rightarrow> Some [] | Some s \<Rightarrow> Some (''-'' @ s))"

definition libFolder :: "plan_env \<Rightarrow> lib_path \<Rightarrow> string" where
  "libFolder env libInfo = root env @ ''/libraries/'' @ lp_path libInfo"

definition libFilePath :: "plan_env \<Rightarrow> lib_path \<Rightarrow> string" where
  "libFilePath env libInfo = libFolder env libInfo @ ''/'' @ lp_name libInfo"

text \<open>
  The URL and size chosen for a library that is not on disk: the mirror first, else the
  declared artifact; \<open>None\<close> when neither gives a truthy URL.
\<close>

definition choose_url :: "plan_env \<Rightarrow> library \<Rightarrow> lib_path \<Rightarrow> (string option \<times> nat)" where
  "choose_url env lib libInfo =
     (let baseURL = (if nativesSuffix (platform env) lib \<noteq> None
                     then lp_path libInfo @ ''/''
                     else lp_path libInfo @ ''/'' @ lp_name libInfo)
      in case checkMirror env baseURL of
           Some m \<Rightarrow> (Some (mr_url m), mr_size m)
         | None \<Rightarrow> (case lib_artifact lib of
                      Some a \<Rightarrow> (art_url a, art_size a)
                    | None \<Rightarrow> (None, 0)))"

text \<open>
  The loop over the de-duplicated libraries. \<open>len\<close> is \<open>libraries.length\<close>. Every
  \<open>continue\<close> and the end of the body emit a \<open>check\<close> event and count it. A TypeError of
  \<open>getPathLibraries\<close> ends the whole function, and so does the \<open>error\<close> event of a
  library without URL when nothing listens to it.
\<close>

definition emit_check :: "nat \<Rightarrow> plan_acc \<Rightarrow> plan_acc" where
  "emit_check len acc =
     acc\<lparr>plan_events := plan_events acc @ [Check (checkCount acc) len],
         checkCount := Suc (checkCount acc)\<rparr>"

definition emit_not_found :: "string \<Rightarrow> plan_acc \<Rightarrow> plan_acc" where
  "emit_not_found n acc = acc\<lparr>plan_events := plan_events acc @ [LibraryNotFound n]\<rparr>"

fun downloadLibraries_loop ::
  "plan_env \<Rightarrow> bool \<Rightarrow> nat \<Rightarrow> plan_acc \<Rightarrow> library list \<Rightarrow> js_error + plan_acc" where
  "downloadLibraries_loop env skipForgeFilter len acc [] = Inr acc"
| "downloadLibraries_loop env skipForgeFilter len acc (lib # libs) =
     (if skipForgeFilter \<and> list_ex (\<lambda>forgePrefix. js_includes (lib_name lib) forgePrefix) skipForge
         \<and> no_artifact_url lib
        then downloadLibraries_loop env skipForgeFilter len (emit_check len acc) libs
      else if skipLibrary (platform env) lib
        then downloadLibraries_loop env skipForgeFilter len (emit_check len acc) libs
      else
        (case getPathLibraries (lib_name lib) (nativeString (platform env) lib) None of
           Inl e \<Rightarrow> Inl e
         | Inr libInfo \<Rightarrow>
             if \<not> existsSync env (libFilePath env libInfo) then
               (case choose_url env lib libInfo of
                  (url, fileSize) \<Rightarrow>
                    let acc1 = acc\<lparr>totalSize := totalSize acc + fileSize\<rparr> in
                    if or_default url [] = [] then
                      (if error_listener env
                       then downloadLibraries_loop env skipForgeFilter len
                              (emit_not_found (lp_name libInfo) (emit_check len acc1)) libs
                       else Inl UnhandledError)
                    else
                      downloadLibraries_loop env skipForgeFilter len
                        (emit_check len
                           (acc1\<lparr>downloadList := downloadList acc1 @
                              [\<lparr>di_url = or_default url [], di_folder = libFolder env libInfo,
                                di_path = libFilePath env libInfo,
                                di_name = lp_name libInfo, di_size = fileSize\<rparr>]\<rparr>))
                        libs)
             else downloadLibraries_loop env skipForgeFilter len (emit_check len acc) libs))"

text \<open>
  \<open>downloadLibraries(profile, skipForgeFilter)\<close> up to the download itself: the libraries
  of \<open>profile.version\<close> followed by those of \<open>profile.install\<close>, de-duplicated, then the
  loop. The result is the plan handed to the downloader and the list the function
  returns.
\<close>

definition downloadLibraries ::
  "plan_env \<Rightarrow> library list option \<Rightarrow> library list option \<Rightarrow> bool
   \<Rightarrow> js_error + (plan_acc \<times> library list)" where
  "downloadLibraries env version_libraries install_libraries skipForgeFilter =
     (let libraries0 = (case version_libraries of None \<Rightarrow> [] | Some ls \<Rightarrow> ls);
          libraries1 = (case install_libraries of None \<Rightarrow> libraries0 | Some ls \<Rightarrow> libraries0 @ ls);
          libraries = dedupe_by_name libraries1
      in case downloadLibraries_loop env skipForgeFilter (length libraries)
                \<lparr>checkCount = 0, downloadList = [], totalSize = 0, plan_events = []\<rparr> libraries of
           Inl e \<Rightarrow> Inl e
         | Inr acc \<Rightarrow> Inr (acc, libraries))"

text \<open>A plan entry is the entry the loop builds for the library \<open>lib\<close>.\<close>

definition plans_library :: "plan_env \<Rightarrow> library \<Rightarrow> download_item \<Rightarrow> bool" where
  "plans_library env lib item =
     (case getPathLibraries (lib_name lib) (nativeString (platform env) lib) None of
        Inl e \<Rightarrow> False
      | Inr libInfo \<Rightarrow> di_path item = libFilePath env libInfo \<and> di_name item = lp_name libInfo
                       \<and> di_folder item = libFolder env libInfo)"


section \<open>Redaction of the logged command line (Launch.start)\<close>

definition auth_field :: "(credential \<Rightarrow> string option) \<Rightarrow> launch_options \<Rightarrow> string option" where
  "auth_field f opt = (case authenticator opt of None \<Rightarrow> None | Some c \<Rightarrow> f c)"

text \<open>
  The four \<open>replaceAll\<close> calls on the credential, in the order of the source. A field that
  is \<open>undefined\<close> is coerced to the pattern \<open>undefined\<close>.
\<close>

definition redactCredentials :: "launch_options \<Rightarrow> string \<Rightarrow> string" where
  "redactCredentials opt argumentsLogs0 =
     (let argumentsLogs1 = replaceAll argumentsLogs0 (js_string (auth_field access_token opt)) ''????????'';
          argumentsLogs2 = replaceAll argumentsLogs1 (js_string (auth_field client_token opt)) ''????????'';
          argumentsLogs3 = replaceAll argumentsLogs2 (js_string (auth_field uuid opt)) ''????????'';
          argumentsLogs4 = replaceAll argumentsLogs3 (js_string (auth_field xboxAccount_xuid opt)) ''????????''
      in argumentsLogs4)"

text \<open>The patterns of those four calls.\<close>

definition redacted_fields :: "launch_options \<Rightarrow> string list" where
  "redacted_fields opt =
     [js_string (auth_field access_token opt), js_string (auth_field client_token opt),
      js_string (auth_field uuid opt), js_string (auth_field xboxAccount_xuid opt)]"

text \<open>
  \<open>argumentsLogs\<close> as it is emitted: the joined arguments, redacted, then every
  occurrence of the root path followed by \<open>/\<close> removed. \<open>opt_path\<close> is the resolved
  \<open>options.path\<close>.
\<close>

definition argumentsLogs :: "launch_options \<Rightarrow> string list \<Rightarrow> string" where
  "argumentsLogs opt Arguments =
     replaceAll (redactCredentials opt (join '' '' Arguments)) (opt_path opt @ ''/'') []"

definition launch_log_line :: "launch_options \<Rightarrow> string list \<Rightarrow> string" where
  "launch_log_line opt Arguments = ''Launching with arguments '' @ argumentsLogs opt Arguments"

text \<open>
  A condition on the last step, the removal of the root path: \<open>seams_clear t p None s\<close>
  says that every occurrence of \<open>p\<close> that \<open>s.replaceAll(p, '')\<close> removes either stands at
  the start of what is kept or follows, in what is kept, a character that does not
  occur in \<open>t\<close>. \<open>prev\<close> is the last character kept so far. The removal joins the text
  before an occurrence to the text after it; under this condition no occurrence of \<open>t\<close>
  can run across such a joint.
\<close>

function seams_clear :: "string \<Rightarrow> string \<Rightarrow> char option \<Rightarrow> string \<Rightarrow> bool" where
  "seams_clear t p prev [] = True"
| "seams_clear t p prev (x # xs) =
     (if p = [] then True
      else if starts_with p (x # xs)
      then (case prev of None \<Rightarrow> True | Some c \<Rightarrow> c \<notin> set t)
           \<and> seams_clear t p prev (drop (length p) (x # xs))
      else seams_clear t p (Some x) xs)"
  by pat_completeness auto
termination
  by (relation "measure (\<lambda>(t, p, prev, s). length s)") auto


section \<open>The launch supervisor (Launch.start, Launch.killProcess, Launch.getPID)\<close>

text \<open>
  Events are recorded in the order they are emitted, with their arguments. The state
  of a \<open>Launch\<close> object is the handle \<open>minecraftProcess\<close> (\<open>None\<close> for \<open>null\<close>), the state of
  \<open>spawnPromise\<close>, the files it reads and writes (path to content) and the events
  emitted so far. Of a child process handle the model keeps the pid (\<open>undefined\<close> when
  the spawn failed) and the \<open>killed\<close> flag, which Node sets once a signal has been sent.
  \<open>children\<close> is not a field of the source: it lists the child processes that have been
  spawned and have not ended yet, each with the logs directory that the handlers
  attached to it write to, \<open>None\<close> when no handler was attached to it.
\<close>

datatype js_value = Str string | Num int | Null

datatype launch_event = Event string "js_value list"

record child_process =
  cp_pid :: "nat option"
  cp_killed :: bool

datatype spawn_promise = NoPromise | SpawnResolved | SpawnRejected

record launch_state =
  fs :: "string \<Rightarrow> string option"
  minecraftProcess :: "child_process option"
  spawnPromise :: spawn_promise
  emitted :: "launch_event list"
  children :: "(nat \<times> string option) list"

text \<open>\<open>this.minecraftProcess?.pid || null\<close>: a pid of 0 is falsy.\<close>

definition getPID :: "launch_state \<Rightarrow> nat option" where
  "getPID st =
     (case minecraftProcess st of
        None \<Rightarrow> None
      | Some p \<Rightarrow> (case cp_pid p of None \<Rightarrow> None | Some n \<Rightarrow> if n = 0 then None else Some n))"

text \<open>
  The clock: a date by its UTC fields. \<open>toISOString\<close> is \<open>Date.prototype.toISOString\<close> for
  the years 0 to 9999, \<open>YYYY-MM-DDTHH:mm:ss.sssZ\<close>.
\<close>

record js_date =
  d_year :: nat
  d_month :: nat
  d_day :: nat
  d_hours :: nat
  d_minutes :: nat
  d_seconds :: nat
  d_millis :: nat

definition digit_char :: "nat \<Rightarrow> char" where
  "digit_char n = ''0123456789'' ! (n mod 10)"

definition pad2 :: "nat \<Rightarrow> string" where
  "pad2 n = [digit_char (n div 10), digit_char n]"

definition pad3 :: "nat \<Rightarrow> string" where
  "pad3 n = [digit_char (n div 100), digit_char (n div 10), digit_char n]"

definition pad4 :: "nat \<Rightarrow> string" where
  "pad4 n = [digit_char (n div 1000), digit_char (n div 100), digit_char (n div 10), digit_char n]"

definition toISOString :: "js_date \<Rightarrow> string" where
  "toISOString d =
     pad4 (d_year d) @ ''-'' @ pad2 (d_month d) @ ''-'' @ pad2 (d_day d) @ ''T''
     @ pad2 (d_hours d) @ '':'' @ pad2 (d_minutes d) @ '':'' @ pad2 (d_seconds d) @ ''.''
     @ pad3 (d_millis d) @ ''Z''"

text \<open>\<open>new Date().toISOString().slice(0, 19).replace(/:/g, '-').replace('T', '_')\<close>\<close>

definition timestamp :: "js_date \<Rightarrow> string" where
  "timestamp now = replace_first (replace_char CHR '':'' CHR ''-'' (take 19 (toISOString now))) ''T'' ''_''"

text \<open>A number in a template literal: its decimal digits.\<close>

function decimal :: "nat \<Rightarrow> string" where
  "decimal n = (if n < 10 then [digit_char n] else decimal (n div 10) @ [digit_char n])"
  by pat_completeness auto
termination
  by (relation "measure id") auto

declare decimal.simps [simp del]

text \<open>
  The messages of the \<open>data\<close> events after archiving and after the spawn; they start
  with U+1F4CB and U+1F50D in UTF-8.
\<close>

definition archived_message :: "js_date \<Rightarrow> string" where
  "archived_message now =
     [CHR 0xF0, CHR 0x9F, CHR 0x93, CHR 0x8B] @ '' Game logs archived as: '' @ timestamp now
     @ ''.log'' @ [CHR 0x0A]"

definition spawned_message :: "nat \<Rightarrow> string" where
  "spawned_message pid =
     [CHR 0xF0, CHR 0x9F, CHR 0x94, CHR 0x8D] @ '' Process spawned with PID: '' @ decimal pid
     @ [CHR 0x0A]"

text \<open>
  Node's \<open>path.join\<close> is a parameter of the definitions below, \<open>path_join\<close>, from the list
  of its arguments to the joined path.

  \<open>Launch.start\<close> from the log line of the command to the end of the executor of
  \<open>spawnPromise\<close>, for a spawn that succeeds with the given pid. The handle is stored
  first. Then \<open>path.join(this.options.path, 'instances', this.options.instance)\<close> is
  evaluated: for an instance that is \<open>null\<close>, the default, \<open>path.join\<close> throws a TypeError,
  so the executor ends there, the promise is rejected (\<open>start\<close> catches the rejection
  and returns) and no handler is attached to the child. Otherwise \<open>latest.log\<close> is
  emptied, the handlers are attached, and the \<open>spawn\<close> event of the child resolves the
  promise.
\<close>

definition start_spawn ::
  "(string list \<Rightarrow> string) \<Rightarrow> launch_options \<Rightarrow> string list \<Rightarrow> nat \<Rightarrow> launch_state \<Rightarrow> launch_state" where
  "start_spawn path_join opt Arguments pid st =
     (let st1 = st\<lparr>emitted := emitted st @ [Event ''data'' [Str (launch_log_line opt Arguments)]],
                   minecraftProcess := Some \<lparr>cp_pid = Some pid, cp_killed = False\<rparr>\<rparr>
      in case opt_instance opt of
           None \<Rightarrow> st1\<lparr>spawnPromise := SpawnRejected, children := children st1 @ [(pid, None)]\<rparr>
         | Some i \<Rightarrow>
             let instancePath = path_join [opt_path opt, ''instances'', i];
                 logDir = path_join [instancePath, ''logs''];
                 latestLogPath = path_join [logDir, ''latest.log'']
             in st1\<lparr>fs := (fs st1)(latestLogPath \<mapsto> []),
                    spawnPromise := SpawnResolved,
                    emitted := emitted st1 @ [Event ''data'' [Str (spawned_message pid)]],
                    children := children st1 @ [(pid, Some logDir)]\<rparr>)"

text \<open>
  The handlers of the child's \<open>stdout\<close> and \<open>stderr\<close>: the chunk is appended to
  \<open>latest.log\<close> and emitted as \<open>data\<close>. A child without handlers is not read.
\<close>

definition child_output ::
  "(string list \<Rightarrow> string) \<Rightarrow> nat \<Rightarrow> string \<Rightarrow> launch_state \<Rightarrow> launch_state" where
  "child_output path_join pid chunk st =
     (case map_of (children st) pid of
        Some (Some logDir) \<Rightarrow>
          let latestLogPath = path_join [logDir, ''latest.log''] in
          st\<lparr>fs := (fs st)(latestLogPath \<mapsto>
                      (case fs st latestLogPath of None \<Rightarrow> chunk | Some c \<Rightarrow> c @ chunk)),
             emitted := emitted st @ [Event ''data'' [Str chunk]]\<rparr>
      | _ \<Rightarrow> st)"

text \<open>
  The handler of the child's \<open>close\<close> event. \<open>code\<close> is the exit code the event passes
  (\<open>None\<close> for \<open>null\<close>, when a signal ended the process) and \<open>now\<close> the clock reading.
  Chunks written to the log stream are taken to be in the file already, so
  \<open>logStream.end()\<close> changes nothing.
\<close>

definition on_close ::
  "(string list \<Rightarrow> string) \<Rightarrow> string \<Rightarrow> int option \<Rightarrow> js_date \<Rightarrow> launch_state \<Rightarrow> launch_state" where
  "on_close path_join logDir code now st =
     (let latestLogPath = path_join [logDir, ''latest.log''];
          st1 = (case fs st latestLogPath of
                   None \<Rightarrow> st
                 | Some content \<Rightarrow>
                     let archiveLogPath = path_join [logDir, timestamp now @ ''.log''] in
                     st\<lparr>fs := (fs st)(archiveLogPath \<mapsto> content),
                        emitted := emitted st @ [Event ''data'' [Str (archived_message now)]]\<rparr>)
      in st1\<lparr>minecraftProcess := None,
             emitted := emitted st1 @ [Event ''close'' [Str ''Minecraft closed'']]\<rparr>)"

text \<open>
  The operating system reports that the child \<open>pid\<close> has ended, and Node emits its
  \<open>close\<close> event: the handler runs if one was attached to that child.
\<close>

definition child_closed ::
  "(string list \<Rightarrow> string) \<Rightarrow> nat \<Rightarrow> int option \<Rightarrow> js_date \<Rightarrow> launch_state \<Rightarrow> launch_state" where
  "child_closed path_join pid code now st =
     (let st1 = st\<lparr>children := filter (\<lambda>c. fst c \<noteq> pid) (children st)\<rparr>
      in case map_of (children st) pid of
           Some (Some logDir) \<Rightarrow> on_close path_join logDir code now st1
         | _ \<Rightarrow> st1)"

text \<open>
  \<open>Launch.killProcess\<close> once the spawn promise has settled: after a rejected promise
  the answer is \<open>false\<close>; otherwise a handle that has not been signalled yet gets SIGTERM
  and the answer is \<open>true\<close>, and in every other case the answer is \<open>false\<close>. The process
  itself ends later, when the operating system reports it. The \<open>log\<close> events of the
  function are left out.
\<close>

definition killProcess :: "launch_state \<Rightarrow> bool \<times> launch_state" where
  "killProcess st =
     (if spawnPromise st = SpawnRejected then (False, st)
      else case minecraftProcess st of
        None \<Rightarrow> (False, st)
      | Some p \<Rightarrow>
          if \<not> cp_killed p
          then (True, st\<lparr>minecraftProcess := Some (p\<lparr>cp_killed := True\<rparr>)\<rparr>)
          else (False, st))"

definition initial_launch :: launch_state where
  "initial_launch =
     \<lparr>fs = (\<lambda>p. None), minecraftProcess = None, spawnPromise = NoPromise, emitted = [],
      children = []\<rparr>"

section \<open>The public wrapper (MinecraftLauncher.launch, MinecraftLauncher.kill)\<close>

text \<open>
  The wrapper holds the flag \<open>isRunning\<close>, the controls object (present or \<open>null\<close>) and
  its \<open>Launch\<close> object. \<open>listeners\<close> tells whether a launch has already registered the
  wrapper's handlers for the launcher's \<open>error\<close> and \<open>close\<close> events.
\<close>

record wrapper_state =
  isRunning :: bool
  gameControls :: bool
  listeners :: bool
  launcher :: launch_state

text \<open>
  What the asynchronous part of a launch (login, download, spawn) does is an input:
  it throws; or it never settles (a batch of downloads that never resolves); or
  \<open>Launch.Launch\<close> returns after an error event without having spawned anything; or it
  returns after spawning a child with the given pid.
\<close>

datatype launch_outcome = Threw | Hangs | NoProcess | Spawned nat

text \<open>
  How a call of \<open>launch\<close> ends: its promise rejects with the already-running error,
  rejects with another error, never settles, or resolves with the controls.
\<close>

datatype launch_result = AlreadyRunning | LaunchRejected | NotSettled | Launched

text \<open>
  \<open>MinecraftLauncher.launch\<close> is an \<open>async\<close> function. The guard on \<open>isRunning\<close> is
  evaluated when the call is made. The function then waits for the login and for
  \<open>Launch.Launch\<close>, and other calls can run while it waits; only after \<open>Launch.Launch\<close>
  has returned are the handlers registered and the flag and the controls set, whether
  or not a child was spawned. \<open>launch_guard\<close> is the test of the guard and \<open>launch_rest\<close>
  what comes after it, for the options and the arguments that \<open>Launch.start\<close> works with.
  \<open>launch\<close> is a call during which nothing else runs.
\<close>

definition launch_guard :: "wrapper_state \<Rightarrow> bool" where
  "launch_guard w = (\<not> isRunning w)"

definition launch_rest ::
  "(string list \<Rightarrow> string) \<Rightarrow> launch_options \<Rightarrow> string list \<Rightarrow> launch_outcome \<Rightarrow> wrapper_state
   \<Rightarrow> launch_result \<times> wrapper_state" where
  "launch_rest path_join opt Arguments outcome w =
     (case outcome of
        Threw \<Rightarrow> (LaunchRejected, w)
      | Hangs \<Rightarrow> (NotSettled, w)
      | NoProcess \<Rightarrow> (Launched, w\<lparr>listeners := True, isRunning := True, gameControls := True\<rparr>)
      | Spawned pid \<Rightarrow>
          (Launched, w\<lparr>launcher := start_spawn path_join opt Arguments pid (launcher w),
                       listeners := True, isRunning := True, gameControls := True\<rparr>))"

definition launch ::
  "(string list \<Rightarrow> string) \<Rightarrow> launch_options \<Rightarrow> string list \<Rightarrow> launch_outcome \<Rightarrow> wrapper_state
   \<Rightarrow> launch_result \<times> wrapper_state" where
  "launch path_join opt Arguments outcome w =
     (if launch_guard w then launch_rest path_join opt Arguments outcome w
      else (AlreadyRunning, w))"

text \<open>\<open>MinecraftLauncher.kill\<close>\<close>

definition kill :: "wrapper_state \<Rightarrow> bool \<times> wrapper_state" where
  "kill w =
     (if \<not> isRunning w \<or> minecraftProcess (launcher w) = None then (False, w)
      else case killProcess (launcher w) of
             (result, l) \<Rightarrow>
               if result then (True, w\<lparr>launcher := l, isRunning := False, gameControls := False\<rparr>)
               else (False, w\<lparr>launcher := l\<rparr>))"

text \<open>
  The child \<open>pid\<close> ends: if the launcher's \<open>close\<close> handler was attached to it, it runs
  and emits \<open>close\<close>, and then the wrapper's handler runs, when it is registered.
\<close>

definition child_exit ::
  "(string list \<Rightarrow> string) \<Rightarrow> nat \<Rightarrow> int option \<Rightarrow> js_date \<Rightarrow> wrapper_state \<Rightarrow> wrapper_state" where
  "child_exit path_join pid code now w =
     (let handled = (case map_of (children (launcher w)) pid of
                       Some (Some logDir) \<Rightarrow> True
                     | _ \<Rightarrow> False);
          w1 = w\<lparr>launcher := child_closed path_join pid code now (launcher w)\<rparr>
      in if handled \<and> listeners w then w1\<lparr>isRunning := False, gameControls := False\<rparr> else w1)"

text \<open>The launcher emits an \<open>error\<close> event: the wrapper's handler clears the flag.\<close>

definition launcher_error :: "wrapper_state \<Rightarrow> wrapper_state" where
  "launcher_error w = (if listeners w then w\<lparr>isRunning := False\<rparr> else w)"

definition initial_wrapper :: "wrapper_state" where
  "initial_wrapper =
     \<lparr>isRunning = False, gameControls = False, listeners = False, launcher = initial_launch\<rparr>"

text \<open>
  The pids of the children that are alive, and what can happen to a wrapper, one thing
  at a time: a call of \<open>launch\<close> during which nothing else runs, the end of a child that
  is alive, a call of \<open>kill\<close>, an \<open>error\<close> event of the launcher.
\<close>

definition live :: "wrapper_state \<Rightarrow> nat list" where
  "live w = map fst (children (launcher w))"

datatype wrapper_op =
  OpLaunch launch_options "string list" launch_outcome
| OpChildExit nat "int option" js_date
| OpKill
| OpError

fun apply_op :: "(string list \<Rightarrow> string) \<Rightarrow> wrapper_state \<Rightarrow> wrapper_op \<Rightarrow> wrapper_state" where
  "apply_op path_join w (OpLaunch opt Arguments outcome) = snd (launch path_join opt Arguments outcome w)"
| "apply_op path_join w (OpChildExit pid code now) =
     (if pid \<in> set (live w) then child_exit path_join pid code now w else w)"
| "apply_op path_join w OpKill = snd (kill w)"
| "apply_op path_join w OpError = launcher_error w"

definition quiet_op :: "wrapper_op \<Rightarrow> bool" where
  "quiet_op op = (case op of OpLaunch opt Arguments outcome \<Rightarrow> True
                  | OpChildExit pid code now \<Rightarrow> True | _ \<Rightarrow> False)"


section \<open>Single downloads (Downloader.downloadFile)\<close>

text \<open>
  What a \<open>fetch\<close> of a URL gives: the whole body, a failure of the request itself
  (the promise of \<open>fetch\<close> rejects), or a body whose stream fails after the given part.
\<close>

datatype fetch_result = Body string | FetchFailed | StreamFailed string

text \<open>
  How an asynchronous call ends: its promise resolves, it rejects, or an error is
  thrown out of an event handler, uncaught, and the promise never settles. The last
  is what Node's \<open>EventEmitter\<close> does when \<open>emit('error', e)\<close> finds no listener for
  \<open>error\<close>: it throws \<open>e\<close>. In the definitions below \<open>listener\<close> tells whether the
  downloader has a listener for \<open>error\<close> that returns.
\<close>

datatype settled = Resolved | Rejected | Uncaught

text \<open>
  \<open>downloadFile(url, dirPath, fileName)\<close> on a file system of files (path to content):
  the write stream creates or truncates the file before the request is made, so a
  failed request leaves an empty file and a failed stream leaves the part received. A
  failed request rejects the promise; a failed stream emits \<open>error\<close> and then rejects,
  unless nothing listens and \<open>emit\<close> throws. Directories and progress events are not
  part of the model.
\<close>

definition downloadFile ::
  "bool \<Rightarrow> (string \<Rightarrow> fetch_result) \<Rightarrow> string \<Rightarrow> string \<Rightarrow> string
   \<Rightarrow> (string \<Rightarrow> string option) \<Rightarrow> settled \<times> (string \<Rightarrow> string option)" where
  "downloadFile listener fetch url dirPath fileName files =
     (let dest = dirPath @ ''/'' @ fileName in
      case fetch url of
        FetchFailed \<Rightarrow> (Rejected, files(dest \<mapsto> []))
      | Body content \<Rightarrow> (Resolved, files(dest \<mapsto> content))
      | StreamFailed part \<Rightarrow> (if listener then Rejected else Uncaught, files(dest \<mapsto> part)))"

section \<open>The Forge installer (ForgeMC.downloadInstaller)\<close>

record forge_urls =
  ld_metaData :: string
  ld_meta :: string
  ld_promotions :: string
  ld_install :: string
  ld_universal :: string
  ld_client :: string

record forge_options =
  fo_path :: string
  loader_version :: string
  loader_build :: string

text \<open>
  \<open>meta.classifiers\<close>: each classifier, when present, is an object from extension to
  MD5 hash, kept in key order.
\<close>

record classifiers =
  cl_installer :: "(string \<times> string) list option"
  cl_client :: "(string \<times> string) list option"
  cl_universal :: "(string \<times> string) list option"

text \<open>
  The network and the hash function, as inputs: the JSON documents behind the three
  metadata URLs (\<open>None\<close> when the request fails), the files behind the download URLs,
  and MD5 as a function of the content.
\<close>

record forge_env =
  fetch_metaData :: "string \<Rightarrow> (string \<times> string list) list option"
  fetch_promotions :: "string \<Rightarrow> (string \<times> string) list option"
  fetch_meta :: "string \<Rightarrow> classifiers option"
  fetch_file :: "string \<Rightarrow> fetch_result"
  md5 :: "string \<Rightarrow> string"

text \<open>
  The ways \<open>downloadInstaller\<close> ends without an installer: the four error objects it
  returns, the rejection of its promise when a request fails, and the case where its
  promise never settles.
\<close>

datatype forge_error =
  NotSupported | BuildNotFound | InvalidInstaller | InvalidHash | RequestFailed | NeverSettles

record forge_installer =
  filePath :: string
  metaData :: string
  ext :: "string option"
  installer_id :: string

text \<open>\<open>a || b\<close> on strings that may be \<open>undefined\<close>.\<close>

definition js_or :: "string option \<Rightarrow> string option \<Rightarrow> string option" where
  "js_or a b = (case a of None \<Rightarrow> b | Some x \<Rightarrow> if x = [] then b else Some x)"

text \<open>
  The first part of \<open>downloadInstaller\<close>: the builds of the game version, the build
  asked for (through the promotions for \<open>latest\<close> and \<open>recommended\<close>), and the build
  chosen, which must be in the list and truthy. The answer is \<open>build\<close> and \<open>chosenBuild\<close>.
\<close>

definition resolve_build ::
  "forge_env \<Rightarrow> forge_urls \<Rightarrow> forge_options \<Rightarrow> forge_error + (string option \<times> string)" where
  "resolve_build env Loader opts =
     (case fetch_metaData env (ld_metaData Loader) of
        None \<Rightarrow> Inl RequestFailed
      | Some json \<Rightarrow>
          (case map_of json (loader_version opts) of
             None \<Rightarrow> Inl NotSupported
           | Some metaDataList \<Rightarrow>
               let promoted = (\<lambda>pick.
                     case fetch_promotions env (ld_promotions Loader) of
                       None \<Rightarrow> Inl RequestFailed
                     | Some promos \<Rightarrow>
                         Inr (List.find (\<lambda>b. js_includes b (js_string (pick promos))) metaDataList));
                   build =
                     (if loader_build opts = ''latest''
                        then promoted (\<lambda>promos. map_of promos (loader_version opts @ ''-latest''))
                      else if loader_build opts = ''recommended''
                        then promoted (\<lambda>promos.
                               js_or (map_of promos (loader_version opts @ ''-recommended''))
                                     (map_of promos (loader_version opts @ ''-latest'')))
                      else Inr (Some (loader_build opts)))
               in case build of
                    Inl e \<Rightarrow> Inl e
                  | Inr b \<Rightarrow>
                      (case List.find (\<lambda>x. Some x = b) metaDataList of
                         None \<Rightarrow> Inl BuildNotFound
                       | Some chosenBuild \<Rightarrow>
                           if chosenBuild = [] then Inl BuildNotFound
                           else Inr (b, chosenBuild))))"

text \<open>
  The classifier to use: \<open>installer\<close>, else \<open>client\<close>, else \<open>universal\<close>. The answer is
  \<open>forgeURL\<close>, \<open>ext\<close> (the first key of the classifier, \<open>undefined\<close> for an empty object) and
  \<open>hashFileOrigin\<close>; \<open>None\<close> stands for the error \<open>Invalid forge installer\<close>.
\<close>

definition first_entry :: "(string \<times> string) list \<Rightarrow> string option \<times> string option" where
  "first_entry m = (case m of [] \<Rightarrow> (None, None) | (e, h) # rest \<Rightarrow> (Some e, Some h))"

definition forge_flavor ::
  "forge_urls \<Rightarrow> string \<Rightarrow> classifiers \<Rightarrow> (string \<times> string option \<times> string option) option" where
  "forge_flavor Loader chosenBuild cl =
     (case cl_installer cl of
        Some m \<Rightarrow> Some (fill_placeholder (ld_install Loader) ''${version}'' chosenBuild, first_entry m)
      | None \<Rightarrow>
          (case cl_client cl of
             Some m \<Rightarrow> Some (fill_placeholder (ld_client Loader) ''${version}'' chosenBuild, first_entry m)
           | None \<Rightarrow>
               (case cl_universal cl of
                  Some m \<Rightarrow> Some (fill_placeholder (ld_universal Loader) ''${version}'' chosenBuild, first_entry m)
                | None \<Rightarrow> None)))"

text \<open>
  \<open>path.resolve(this.options.path, 'libraries/net/minecraftforge/installer')\<close>, for the
  resolved \<open>options.path\<close>.
\<close>

definition forgeFolder :: "forge_options \<Rightarrow> string" where
  "forgeFolder opts = fo_path opts @ ''/libraries/net/minecraftforge/installer''"

text \<open>The last \<open>/\<close>-separated part of the URL with its extension.\<close>

definition installer_fileName :: "string \<Rightarrow> string option \<Rightarrow> string" where
  "installer_fileName forgeURL e = js_string (js_pop (split_on CHR ''/'' (forgeURL @ ''.'' @ js_string e)))"

text \<open>
  \<open>path.resolve(forgeFolder, fileName)\<close>. The file name has no \<open>/\<close> in it. When it is a
  name proper, the path is the folder and the name joined by a slash, which is also
  where \<open>downloadFile\<close> writes. When it is empty, \<open>.\<close> or \<open>..\<close>, \<open>path.resolve\<close> gives the
  folder itself or its parent, a directory.
\<close>

definition plain_name :: "string \<Rightarrow> bool" where
  "plain_name n = (n \<noteq> [] \<and> n \<noteq> ''.'' \<and> n \<noteq> ''..'')"

definition installerPath :: "forge_options \<Rightarrow> string \<Rightarrow> string option \<Rightarrow> string" where
  "installerPath opts forgeURL e =
     (let fileName = installer_fileName forgeURL e in
      if plain_name fileName then forgeFolder opts @ ''/'' @ fileName
      else if fileName = ''..'' then fo_path opts @ ''/libraries/net/minecraftforge''
      else forgeFolder opts)"

text \<open>
  The last part of \<open>downloadInstaller\<close>: download when the file is not there, hash the
  file, and on a mismatch remove it and answer \<open>Invalid hash\<close>. The downloader used
  here has a listener for \<open>progress\<close> only. When the path is that of a directory, the
  stream that writes to it or the stream that reads it for the hash fails; neither has a
  listener for its \<open>error\<close> event, so the error is thrown, uncaught, no file is written
  and the promise of \<open>getFileHash\<close> never settles.
\<close>

definition fetch_and_verify ::
  "forge_env \<Rightarrow> forge_options \<Rightarrow> string \<Rightarrow> string option \<Rightarrow> string option
   \<Rightarrow> (string \<Rightarrow> string option) \<Rightarrow> (forge_error + string) \<times> (string \<Rightarrow> string option)" where
  "fetch_and_verify env opts forgeURL e hashFileOrigin files =
     (let fileName = installer_fileName forgeURL e;
          p = installerPath opts forgeURL e
      in if \<not> plain_name fileName then (Inl NeverSettles, files)
         else
           let (how, files1) = (if files p = None
                                then downloadFile False (fetch_file env) (forgeURL @ ''.'' @ js_string e)
                                       (forgeFolder opts) fileName files
                                else (Resolved, files))
           in if how = Rejected then (Inl RequestFailed, files1)
              else if how = Uncaught then (Inl NeverSettles, files1)
              else case files1 p of
                     None \<Rightarrow> (Inl RequestFailed, files1)
                   | Some content \<Rightarrow>
                       if Some (md5 env content) \<noteq> hashFileOrigin
                       then (Inl InvalidHash, files1(p := None))
                       else (Inr p, files1))"

definition downloadInstaller ::
  "forge_env \<Rightarrow> forge_urls \<Rightarrow> forge_options \<Rightarrow> (string \<Rightarrow> string option)
   \<Rightarrow> (forge_error + forge_installer) \<times> (string \<Rightarrow> string option)" where
  "downloadInstaller env Loader opts files =
     (case resolve_build env Loader opts of
        Inl err \<Rightarrow> (Inl err, files)
      | Inr (build, chosenBuild) \<Rightarrow>
          (case fetch_meta env (fill_placeholder (ld_meta Loader) ''${build}'' chosenBuild) of
             None \<Rightarrow> (Inl RequestFailed, files)
           | Some cl \<Rightarrow>
               (case forge_flavor Loader chosenBuild cl of
                  None \<Rightarrow> (Inl InvalidInstaller, files)
                | Some (forgeURL, e, hashFileOrigin) \<Rightarrow>
                    (case fetch_and_verify env opts forgeURL e hashFileOrigin files of
                       (Inl err, files1) \<Rightarrow> (Inl err, files1)
                     | (Inr p, files1) \<Rightarrow>
                         (Inr \<lparr>filePath = p, metaData = chosenBuild, ext = e,
                               installer_id = ''forge-'' @ js_string build\<rparr>, files1)))))"

section \<open>Batches of downloads (Downloader.downloadFileMultiple)\<close>

text \<open>
  \<open>Downloader.downloadFileMultiple\<close> lowers the limit it is given to the number of
  files before it starts any transfer.
\<close>

definition effective_limit :: "int \<Rightarrow> nat \<Rightarrow> int" where
  "effective_limit limit n = (if limit > int n then int n else limit)"

text \<open>
  A batch is the list of its files; of a file the model keeps how its transfer goes,
  which is an input: the body arrives in chunks of the given lengths and ends; or it
  arrives in part and the stream fails; or the request itself fails, which is also
  what an abort by the timeout does, the timer being cleared as soon as the response
  is there.
\<close>

datatype transfer = Succeeds "nat list" | StreamFails "nat list" | FetchFails

datatype dl_event = Progress nat | DlError nat

text \<open>
  The counters of the function, the indices of the files whose transfer has been
  started and has not ended yet, and the events emitted. \<open>DlError i\<close> is the \<open>error\<close>
  event for the file of index \<open>i\<close>.
\<close>

record dl_state =
  completed :: nat
  downloaded :: nat
  queued :: nat
  in_flight :: "nat list"
  dl_events :: "dl_event list"

text \<open>\<open>downloadNext\<close>, up to the request: nothing when the queue is used up.\<close>

definition downloadNext :: "nat \<Rightarrow> dl_state \<Rightarrow> dl_state" where
  "downloadNext n st =
     (if queued st \<ge> n then st
      else st\<lparr>in_flight := in_flight st @ [queued st], queued := queued st + 1\<rparr>)"

text \<open>The \<open>data\<close> handler, once per chunk.\<close>

fun receive :: "nat list \<Rightarrow> dl_state \<Rightarrow> dl_state" where
  "receive [] st = st"
| "receive (c # cs) st =
     receive cs (st\<lparr>downloaded := downloaded st + c,
                    dl_events := dl_events st @ [Progress (downloaded st + c)]\<rparr>)"

text \<open>
  The transfer of the file of index \<open>i\<close> runs to its end: its chunks are received,
  then the \<open>end\<close> handler, the \<open>error\<close> handler or the \<open>catch\<close> block runs. On a failure
  the \<open>error\<close> event is emitted first; with a listener the handler goes on to count the transfer
  and to call \<open>downloadNext\<close>; without one \<open>emit\<close> throws and the rest of the handler is
  not run. The model then lets the other transfers go on, as in a process that
  survives the uncaught error.
\<close>

definition settle :: "bool \<Rightarrow> transfer list \<Rightarrow> dl_state \<Rightarrow> nat \<Rightarrow> dl_state" where
  "settle listener files st i =
     (let n = length files;
          st1 = st\<lparr>in_flight := removeAll i (in_flight st)\<rparr> in
      case js_index files i of
        None \<Rightarrow> st
      | Some (Succeeds chunks) \<Rightarrow>
          (let st2 = receive chunks st1 in
           downloadNext n (st2\<lparr>completed := completed st2 + 1\<rparr>))
      | Some (StreamFails chunks) \<Rightarrow>
          (let st2 = receive chunks st1 in
           if listener
           then downloadNext n (st2\<lparr>dl_events := dl_events st2 @ [DlError i],
                                    completed := completed st2 + 1\<rparr>)
           else st2)
      | Some FetchFails \<Rightarrow>
          if listener
          then downloadNext n (st1\<lparr>dl_events := dl_events st1 @ [DlError i],
                                   completed := completed st1 + 1\<rparr>)
          else st1)"

text \<open>The state after the loop that starts \<open>limit\<close> transfers.\<close>

definition start_downloads :: "nat \<Rightarrow> int \<Rightarrow> dl_state" where
  "start_downloads n limit =
     ((downloadNext n) ^^ nat (effective_limit limit n))
       \<lparr>completed = 0, downloaded = 0, queued = 0, in_flight = [], dl_events = []\<rparr>"

text \<open>
  The order in which the running transfers end is not fixed by the program: a
  schedule picks, at each step, one of the transfers in flight by its position. With
  nothing in flight nothing happens any more.
\<close>

fun run_downloads :: "bool \<Rightarrow> transfer list \<Rightarrow> dl_state \<Rightarrow> nat list \<Rightarrow> dl_state" where
  "run_downloads listener files st [] = st"
| "run_downloads listener files st (k # ks) =
     (if in_flight st = [] then st
      else run_downloads listener files
             (settle listener files st (in_flight st ! (k mod length (in_flight st)))) ks)"

text \<open>The test of the polling timer that resolves the promise.\<close>

definition resolved :: "nat \<Rightarrow> dl_state \<Rightarrow> bool" where
  "resolved n st = (completed st = n)"

definition fails :: "transfer \<Rightarrow> bool" where
  "fails t = (case t of Succeeds chunks \<Rightarrow> False | _ \<Rightarrow> True)"

text \<open>
  What holds of the counters throughout a run with pool size \<open>L\<close>: every started
  transfer is either counted or in flight, the pool is full as long as files are
  queued, and the \<open>error\<close> events emitted are those of the failed transfers that have
  ended.
\<close>

definition dl_inv :: "transfer list \<Rightarrow> nat \<Rightarrow> dl_state \<Rightarrow> bool" where
  "dl_inv files L st =
     (completed st + length (in_flight st) = queued st \<and> queued st \<le> length files
      \<and> (queued st < length files \<longrightarrow> length (in_flight st) = L)
      \<and> distinct (in_flight st) \<and> (\<forall>i\<in>set (in_flight st). i < queued st)
      \<and> (\<forall>i. DlError i \<in> set (dl_events st) \<longleftrightarrow>
               i < queued st \<and> i \<notin> set (in_flight st) \<and> fails (files ! i)))"

text \<open>
  The same start of a batch for the limit as \<open>Launch.DownloadGame\<close> passes it, any value of
  the option. The parameter \<open>limit\<close> takes its default 1 for \<open>undefined\<close> only; it is
  lowered to the number of files when it is greater; then the loop
  \<open>for (let i = 0; i < limit; i++) downloadNext()\<close> runs. The answer of \<open>start_loop\<close> is
  the state after the loop, \<open>None\<close> if the loop does not end.
\<close>

definition initial_dl_state :: dl_state where
  "initial_dl_state = \<lparr>completed = 0, downloaded = 0, queued = 0, in_flight = [], dl_events = []\<rparr>"

partial_function (option) start_loop :: "nat \<Rightarrow> js_number \<Rightarrow> nat \<Rightarrow> dl_state \<Rightarrow> dl_state option" where
  "start_loop n limit i st =
     (if js_less (Finite (real i)) limit then start_loop n limit (Suc i) (downloadNext n st)
      else Some st)"

definition limit_for_files :: "pool_size \<Rightarrow> nat \<Rightarrow> js_number" where
  "limit_for_files v n =
     (let limit = (case v of Numeric x \<Rightarrow> x | _ \<Rightarrow> Finite 1)
      in if js_less (Finite (real n)) limit then Finite (real n) else limit)"

definition start_batch :: "nat \<Rightarrow> pool_size \<Rightarrow> js_error + dl_state option" where
  "start_batch n v =
     (if v = Uncoercible then Inl TypeError
      else Inr (start_loop n (limit_for_files v n) 0 initial_dl_state))"

section \<open>Speed and remaining time (the aggregator of downloadFileMultiple)\<close>

text \<open>
  The numbers of the aggregator are JavaScript doubles. The model leaves their
  arithmetic open: the operations the code uses are parameters, so that what is proved
  holds for the arithmetic of doubles, infinities and NaN included, as for any other.
\<close>

record 'a arith =
  add :: "'a \<Rightarrow> 'a \<Rightarrow> 'a"
  sub :: "'a \<Rightarrow> 'a \<Rightarrow> 'a"
  divide_by :: "'a \<Rightarrow> 'a \<Rightarrow> 'a"
  zero :: 'a
  thousand :: 'a
  number_of :: "nat \<Rightarrow> 'a"

datatype 'a agg_event = Speed 'a | Estimated 'a

record 'a agg_state =
  agg_start :: 'a
  agg_before :: 'a
  speeds :: "'a list"
  agg_events :: "'a agg_event list"

text \<open>\<open>speeds.reduce((a, b) => a + b, 0) / speeds.length\<close>\<close>

definition average :: "'a arith \<Rightarrow> 'a list \<Rightarrow> 'a" where
  "average ar xs = divide_by ar (foldl (add ar) (zero ar) xs) (number_of ar (length xs))"

text \<open>
  One run of the interval callback. Its inputs are the two readings of \<open>Date.now()\<close>, at
  the start and at the end of the callback, and the value of \<open>downloaded\<close> at that
  moment; \<open>total_size\<close> is the \<open>size\<close> argument, the declared total.
\<close>

definition tick :: "'a arith \<Rightarrow> 'a \<Rightarrow> 'a \<times> 'a \<times> 'a \<Rightarrow> 'a agg_state \<Rightarrow> 'a agg_state" where
  "tick ar total_size inp st =
     (case inp of (now1, now2, dl) \<Rightarrow>
        let duration = divide_by ar (sub ar now1 (agg_start st)) (thousand ar);
            chunkDownloaded = sub ar dl (agg_before st);
            speeds1 = (if length (speeds st) \<ge> 5 then tl (speeds st) else speeds st);
            speeds2 = speeds1 @ [divide_by ar chunkDownloaded duration];
            avgSpeed = average ar speeds2;
            timeRemaining = divide_by ar (sub ar total_size dl) avgSpeed
        in \<lparr>agg_start = now2, agg_before = dl, speeds = speeds2,
             agg_events = agg_events st @ [Speed avgSpeed, Estimated timeRemaining]\<rparr>)"

fun ticks :: "'a arith \<Rightarrow> 'a \<Rightarrow> 'a agg_state \<Rightarrow> ('a \<times> 'a \<times> 'a) list \<Rightarrow> 'a agg_state" where
  "ticks ar total_size st [] = st"
| "ticks ar total_size st (inp # inps) = ticks ar total_size (tick ar total_size inp st) inps"

definition agg_init :: "'a arith \<Rightarrow> 'a \<Rightarrow> 'a agg_state" where
  "agg_init ar t0 = \<lparr>agg_start = t0, agg_before = zero ar, speeds = [], agg_events = []\<rparr>"

text \<open>
  The byte-rate samples of the intervals, as the specification describes them: the
  bytes downloaded during the interval divided by its length in seconds, the interval
  running from the end of the previous callback to the start of this one.
\<close>

fun samples :: "'a arith \<Rightarrow> 'a \<Rightarrow> 'a \<Rightarrow> ('a \<times> 'a \<times> 'a) list \<Rightarrow> 'a list" where
  "samples ar t b [] = []"
| "samples ar t b ((now1, now2, dl) # inps) =
     divide_by ar (sub ar dl b) (divide_by ar (sub ar now1 t) (thousand ar)) # samples ar now2 dl inps"

definition last_five :: "'a list \<Rightarrow> 'a list" where
  "last_five xs = drop (length xs - 5) xs"

text \<open>
  The arithmetic of the real numbers, to compare the mean of the code with the usual
  one. A division by zero, which gives an infinity or NaN on doubles, has the value 0
  there.
\<close>

definition exact_arith :: "real arith" where
  "exact_arith = \<lparr>add = (+), sub = (-), divide_by = (/), zero = 0, thousand = 1000, number_of = real\<rparr>"

section \<open>Staging the mods (Launch.setupMods)\<close>

text \<open>\<open>url.split('/').pop().split('?')[0]\<close>\<close>

definition mod_fileName :: "string \<Rightarrow> string" where
  "mod_fileName url =
     js_string (js_index (split_on CHR ''?'' (js_string (js_pop (split_on CHR ''/'' url)))) 0)"

text \<open>
  The file name as the specification derives it: the query string is stripped from the
  URL, and the name is the last segment of the path that is left.
\<close>

definition spec_fileName :: "string \<Rightarrow> string" where
  "spec_fileName url = js_string (js_pop (split_on CHR ''/'' (takeWhile (\<lambda>c. c \<noteq> CHR ''?'') url)))"

text \<open>
  \<open>fs.existsSync(path.join(modsDir, fileName))\<close>: the mods directory has just been
  created, and \<open>path.join\<close> resolves an empty name and \<open>.\<close> to it and \<open>..\<close> to its parent.
\<close>

definition mod_exists :: "(string \<Rightarrow> string option) \<Rightarrow> string \<Rightarrow> string \<Rightarrow> bool" where
  "mod_exists files modsDir fileName =
     (fileName = [] \<or> fileName = ''.'' \<or> fileName = ''..''
      \<or> files (modsDir @ ''/'' @ fileName) \<noteq> None)"

text \<open>The \<open>data\<close> events of \<open>setupMods\<close>, by kind; each stands for one line of text.\<close>

datatype mod_event =
  SettingUp | DownloadingMods | ModExists string | Downloading string | Downloaded string
  | DownloadFailed string | CopiedMod string | Complete

text \<open>
  The files, the events, and whether \<open>setupMods\<close> has come to a halt on a download
  whose promise never settles.
\<close>

record mods_state =
  mod_files :: "string \<Rightarrow> string option"
  mod_events :: "mod_event list"
  mod_halted :: bool

text \<open>
  The loop over \<open>downloadUrls\<close>. The downloader it creates has no listener at all. A
  rejected download is caught and reported, and the loop goes on; the file the write
  stream has created stays. A download that never settles halts the loop.
\<close>

fun stage_urls :: "(string \<Rightarrow> fetch_result) \<Rightarrow> string \<Rightarrow> mods_state \<Rightarrow> string list \<Rightarrow> mods_state" where
  "stage_urls fetch modsDir st [] = st"
| "stage_urls fetch modsDir st (url # urls) =
     (let fileName = mod_fileName url in
      if mod_exists (mod_files st) modsDir fileName
      then stage_urls fetch modsDir (st\<lparr>mod_events := mod_events st @ [ModExists fileName]\<rparr>) urls
      else
        (case downloadFile False fetch url modsDir fileName (mod_files st) of
           (how, files1) \<Rightarrow>
             if how = Uncaught
             then st\<lparr>mod_files := files1, mod_events := mod_events st @ [Downloading fileName],
                     mod_halted := True\<rparr>
             else
               stage_urls fetch modsDir
                 (st\<lparr>mod_files := files1,
                     mod_events := mod_events st @ [Downloading fileName]
                               @ (if how = Resolved then [Downloaded fileName] else [DownloadFailed url])\<rparr>)
                 urls))"

text \<open>\<open>file.endsWith('.jar') && !file.includes('sources')\<close>\<close>

definition is_custom_mod :: "string \<Rightarrow> bool" where
  "is_custom_mod file = (starts_with (rev ''.jar'') (rev file) \<and> \<not> js_includes file ''sources'')"

fun copy_mods :: "string \<Rightarrow> mods_state \<Rightarrow> (string \<times> string) list \<Rightarrow> mods_state" where
  "copy_mods modsDir st [] = st"
| "copy_mods modsDir st ((modFile, content) # rest) =
     copy_mods modsDir
       (if is_custom_mod modFile
        then st\<lparr>mod_files := (mod_files st)(modsDir @ ''/'' @ modFile \<mapsto> content),
                mod_events := mod_events st @ [CopiedMod modFile]\<rparr>
        else st)
       rest"

text \<open>
  \<open>setupMods\<close> for a mods configuration: the URLs, and the listing of the custom mods
  directory with the content of its files (\<open>None\<close> when it is not configured or does
  not exist). \<open>modsDir\<close> is the mods directory of the instance.
\<close>

definition setupMods ::
  "(string \<Rightarrow> fetch_result) \<Rightarrow> string \<Rightarrow> string list \<Rightarrow> (string \<times> string) list option
   \<Rightarrow> (string \<Rightarrow> string option) \<Rightarrow> mods_state" where
  "setupMods fetch modsDir downloadUrls customMods files =
     (let st0 = \<lparr>mod_files = files, mod_events = [SettingUp], mod_halted = False\<rparr>;
          st1 = (if downloadUrls \<noteq> []
                 then stage_urls fetch modsDir (st0\<lparr>mod_events := mod_events st0 @ [DownloadingMods]\<rparr>)
                        downloadUrls
                 else st0)
      in if mod_halted st1 then st1
         else
           let st2 = (case customMods of None \<Rightarrow> st1 | Some listing \<Rightarrow> copy_mods modsDir st1 listing)
           in st2\<lparr>mod_events := mod_events st2 @ [Complete]\<rparr>)"

section \<open>Theorems\<close>

subsection \<open>String operations\<close>

lemma split_on_nonempty: "split_on c s \<noteq> []"
  by (induction s) (auto split: list.splits)

lemma split_on_head: "js_string (js_index (split_on c s) 0) = takeWhile (\<lambda>x. x \<noteq> c) s"
  by (induction s) (auto simp: js_index_def js_string_def split_on_nonempty split: list.splits)

lemma starts_with_single: "starts_with [c] s = (s \<noteq> [] \<and> hd s = c)"
  by (cases s) auto

lemma js_includes_single: "js_includes s [c] = (c \<in> set s)"
  by (induction s) (auto simp: starts_with_single)

lemma replace_first_at: "c \<notin> set b \<Longrightarrow> replace_first (b @ c # e) [c] r = b @ r @ e"
  by (induction b) (auto simp: starts_with_single)

lemma starts_with_append: "starts_with p (p @ w)"
  by (induction p) auto

lemma starts_with_Nil [simp]: "starts_with t [] = (t = [])"
  by (cases t) auto

lemma starts_with_iff: "starts_with p s \<longleftrightarrow> (\<exists>w. s = p @ w)"
proof (induction p s rule: starts_with.induct)
  case (1 s)
  then show ?case by simp
next
  case (2 p ps)
  then show ?case by simp
next
  case (3 p ps x xs)
  then show ?case by auto
qed

lemma starts_with_take: "starts_with p s \<longleftrightarrow> take (length p) s = p"
  by (induction p s rule: starts_with.induct) auto

lemma split_on_parts_no_sep: "w \<in> set (split_on c s) \<Longrightarrow> c \<notin> set w"
  by (induction s arbitrary: w) (auto split: if_splits list.splits)

text \<open>
  A replacement text without \<open>$\<close> is put in as it is, so that the replacement by a
  regular expression is the one of \<open>replaceAll\<close>; with a \<open>$\<close> pattern it is not.
\<close>

lemma expand_replacement_literal: "CHR ''$'' \<notin> set r \<Longrightarrow> expand_replacement r m pre post = r"
  by (induction r m pre post rule: expand_replacement.induct) auto

lemma replace_global_literal:
  "p \<noteq> [] \<Longrightarrow> CHR ''$'' \<notin> set r \<Longrightarrow> replace_global pre s p r = replaceAll s p r"
  by (induction pre s p r rule: replace_global.induct) (auto simp: expand_replacement_literal)

lemma fill_placeholder_dollar:
  "fill_placeholder ''f/${version}/x'' ''${version}'' ''1$&2'' = ''f/1${version}2/x''
   \<and> replaceAll ''f/${version}/x'' ''${version}'' ''1$&2'' = ''f/1$&2/x''"
  by (simp add: fill_placeholder_def)

subsection \<open>Maven coordinates\<close>

lemma js_index_segments:
  "js_index (g # a # v # rest) 0 = Some g"
  "js_index (g # a # v # rest) 1 = Some a"
  "js_index (g # a # v # rest) 2 = Some v"
  "js_index (g # a # v # rest) 3 = (case rest of [] \<Rightarrow> None | c # cs \<Rightarrow> Some c)"
  by (auto simp: js_index_def split: list.splits)

lemma getPathLibraries_segments:
  assumes "split_on CHR '':'' main = g # a # v # rest"
  shows "getPathLibraries main ns fe =
     Inr \<lparr>lp_path = replace_char CHR ''.'' CHR ''/'' g @ ''/'' @ a @ ''/'' @ bare_version v,
          lp_name = a @ ''-'' @
            (let fileName = (case rest of [] \<Rightarrow> v | c # cs \<Rightarrow> if c = [] then v else v @ ''-'' @ c)
             in if CHR ''@'' \<in> set fileName then replace_first fileName ''@'' ''.''
                else fileName @ or_default ns [] @ or_default fe ''.jar''),
          lp_version = v\<rparr>"
  unfolding getPathLibraries_def Let_def assms js_index_segments split_on_head bare_version_def
  by (simp add: js_includes_single js_string_def split: list.splits)

lemma getPathLibraries_too_short:
  "length (split_on CHR '':'' main) < 3 \<Longrightarrow> getPathLibraries main ns fe = Inl TypeError"
  by (simp add: getPathLibraries_def js_index_def)

text \<open>
  C2, as the claim has it, fails on a coordinate whose version carries an \<open>@ext\<close>
  suffix. The \<open>version\<close> field is the third segment as written, suffix included, while
  the bare version is what the directory path ends with. And when such a version is
  followed by a classifier, the suffix does not become the extension of the file: it
  stays in the middle of the name, before the classifier.
\<close>

theorem getPathLibraries_version_not_bare:
  "getPathLibraries ''com.example:lib:1.0@zip'' None None =
     Inr \<lparr>lp_path = ''com/example/lib/1.0'', lp_name = ''lib-1.0.zip'', lp_version = ''1.0@zip''\<rparr>
   \<and> ''1.0@zip'' \<noteq> bare_version ''1.0@zip''
   \<and> getPathLibraries ''com.example:lib:1.0@zip:sources'' None None =
     Inr \<lparr>lp_path = ''com/example/lib/1.0'', lp_name = ''lib-1.0.zip-sources'',
          lp_version = ''1.0@zip''\<rparr>"
  by (simp add: getPathLibraries_def js_index_def js_string_def or_default_def replace_char_def
      bare_version_def)

text \<open>
  C2, amended. A coordinate with at least three \<open>:\<close>-separated segments \<open>g\<close>, \<open>a\<close>, \<open>v\<close>
  always yields a result with the three fields. The directory is \<open>g\<close> with its dots
  turned into slashes, then \<open>a\<close> and the bare version, both unchanged. The \<open>version\<close>
  field is \<open>v\<close> as written: it is the bare version when \<open>v\<close> has no \<open>@\<close>. The file name is
  \<open>a-F\<close> completed as follows, where \<open>F\<close> is \<open>v\<close>, followed by a dash and the fourth segment
  when there is a fourth segment and it is not empty. When \<open>F\<close> has no \<open>@\<close>, \<open>F\<close> is followed
  by the native suffix and the extension (\<open>.jar\<close> by default). When \<open>F\<close> has an \<open>@\<close>, its
  first \<open>@\<close> becomes a dot and neither the native suffix nor the extension is added: so
  \<open>g:a:b@e\<close> gives \<open>a-b.e\<close>, \<open>g:a:v:d@e\<close> gives \<open>a-v-d.e\<close>, and \<open>g:a:b@e:c\<close> gives \<open>a-b.e-c\<close>.
\<close>

theorem getPathLibraries_structure:
  assumes "split_on CHR '':'' main = g # a # v # rest"
  shows "\<exists>r. getPathLibraries main ns fe = Inr r
     \<and> lp_path r = replace_char CHR ''.'' CHR ''/'' g @ ''/'' @ a @ ''/'' @ bare_version v
     \<and> lp_version r = v
     \<and> (CHR ''@'' \<notin> set v \<longrightarrow> lp_version r = bare_version v)
     \<and> (\<forall>fileName.
          fileName = (case rest of [] \<Rightarrow> v | c # cs \<Rightarrow> if c = [] then v else v @ ''-'' @ c) \<longrightarrow>
            (CHR ''@'' \<notin> set fileName \<longrightarrow>
               lp_name r = a @ ''-'' @ fileName @ or_default ns [] @ or_default fe ''.jar'')
          \<and> (\<forall>b e. fileName = b @ ''@'' @ e \<and> CHR ''@'' \<notin> set b \<longrightarrow>
               lp_name r = a @ ''-'' @ b @ ''.'' @ e))
     \<and> (rest = [] \<and> CHR ''@'' \<notin> set v \<longrightarrow>
          lp_name r = a @ ''-'' @ v @ or_default ns [] @ or_default fe ''.jar'')
     \<and> (\<forall>c cs. rest = c # cs \<and> c \<noteq> [] \<and> CHR ''@'' \<notin> set v \<and> CHR ''@'' \<notin> set c \<longrightarrow>
          lp_name r = a @ ''-'' @ v @ ''-'' @ c @ or_default ns [] @ or_default fe ''.jar'')
     \<and> (\<forall>b e. (rest = [] \<or> hd rest = []) \<and> v = b @ ''@'' @ e \<and> CHR ''@'' \<notin> set b \<longrightarrow>
          lp_name r = a @ ''-'' @ b @ ''.'' @ e)
     \<and> (\<forall>c cs d e. rest = c # cs \<and> CHR ''@'' \<notin> set v \<and> c = d @ ''@'' @ e \<and> CHR ''@'' \<notin> set d \<longrightarrow>
          lp_name r = a @ ''-'' @ v @ ''-'' @ d @ ''.'' @ e)
     \<and> (\<forall>c cs b e. rest = c # cs \<and> c \<noteq> [] \<and> v = b @ ''@'' @ e \<and> CHR ''@'' \<notin> set b \<longrightarrow>
          lp_name r = a @ ''-'' @ b @ ''.'' @ e @ ''-'' @ c)"
proof -
  have bare: "CHR ''@'' \<notin> set v \<Longrightarrow> bare_version v = v"
    by (auto simp: bare_version_def)
  have at: "CHR ''@'' \<notin> set b \<Longrightarrow> replace_first (b @ CHR ''@'' # e) ''@'' ''.'' = b @ CHR ''.'' # e"
    for b e using replace_first_at[of "CHR ''@''" b e "''.''"] by simp
  have at2: "CHR ''@'' \<notin> set v \<Longrightarrow> CHR ''@'' \<notin> set d \<Longrightarrow>
      replace_first (v @ CHR ''-'' # d @ CHR ''@'' # e) ''@'' ''.'' = v @ CHR ''-'' # d @ CHR ''.'' # e"
    for d e using replace_first_at[of "CHR ''@''" "v @ ''-'' @ d" e "''.''"] by simp
  show ?thesis
    unfolding getPathLibraries_segments[OF assms]
    by (cases rest) (auto simp: bare at at2 Let_def)
qed

theorem getPathLibraries_structure_witness:
  "split_on CHR '':'' ''net.minecraft:client:1.20.1:mappings@txt'' =
     [''net.minecraft'', ''client'', ''1.20.1'', ''mappings@txt'']
   \<and> getPathLibraries ''net.minecraft:client:1.20.1:mappings@txt'' (Some ''-natives-linux'') None =
      Inr \<lparr>lp_path = ''net/minecraft/client/1.20.1'', lp_name = ''client-1.20.1-mappings.txt'',
           lp_version = ''1.20.1''\<rparr>"
proof -
  have s: "split_on CHR '':'' ''net.minecraft:client:1.20.1:mappings@txt'' =
           ''net.minecraft'' # ''client'' # ''1.20.1'' # [''mappings@txt'']"
    by simp
  from getPathLibraries_structure[OF s, of "Some ''-natives-linux''" None] s show ?thesis
    by (auto simp: getPathLibraries_def js_index_def js_string_def replace_char_def
        bare_version_def or_default_def)
qed

subsection \<open>Library rules and the Forge download plan\<close>

lemma find_append_case:
  "List.find P (xs @ ys) = (case List.find P xs of None \<Rightarrow> List.find P ys | Some x \<Rightarrow> Some x)"
  by (induction xs) auto

lemma skipLibrary_loop_step:
  "skipLibrary_loop pf b (r # rs) =
     skipLibrary_loop pf (if rule_applies pf r then rule_action r = ''disallow'' else b) rs"
  by (auto simp: rule_applies_def)

lemma skipLibrary_loop_last:
  "skipLibrary_loop pf b rs =
     (case List.find (rule_applies pf) (rev rs) of None \<Rightarrow> b | Some r \<Rightarrow> rule_action r = ''disallow'')"
proof (induction rs arbitrary: b)
  case Nil
  then show ?case by simp
next
  case (Cons r rs)
  show ?case
    unfolding skipLibrary_loop_step Cons.IH
    by (cases "List.find (rule_applies pf) (rev rs)") (simp_all add: find_append_case)
qed

lemma emit_check_plan [simp]:
  "downloadList (emit_check len acc) = downloadList acc"
  "downloadList (emit_not_found n acc) = downloadList acc"
  by (simp_all add: emit_check_def emit_not_found_def)

lemma loop_plan:
  assumes "downloadLibraries_loop env f len acc libs = Inr acc'"
    and "\<forall>item\<in>set (downloadList acc). \<exists>lib\<in>S. \<not> skipLibrary (platform env) lib \<and> plans_library env lib item"
  shows "\<forall>item\<in>set (downloadList acc'). \<exists>lib\<in>S \<union> set libs. \<not> skipLibrary (platform env) lib \<and> plans_library env lib item"
  using assms
proof (induction libs arbitrary: acc S)
  case Nil
  then show ?case by simp
next
  case (Cons lib libs)
  let ?ok = "\<lambda>S acc. \<forall>item\<in>set (downloadList acc). \<exists>l\<in>S. \<not> skipLibrary (platform env) l \<and> plans_library env l item"
  have step: "\<And>acc1. downloadLibraries_loop env f len acc1 libs = Inr acc' \<Longrightarrow> ?ok (insert lib S) acc1
      \<Longrightarrow> ?ok (S \<union> set (lib # libs)) acc'"
    using Cons.IH[of _ "insert lib S"] by simp
  have mono: "?ok (insert lib S) acc" using Cons.prems(2) by blast
  show ?case
  proof (cases "(f \<and> list_ex (\<lambda>forgePrefix. js_includes (lib_name lib) forgePrefix) skipForge
         \<and> no_artifact_url lib) \<or> skipLibrary (platform env) lib")
    case True
    then have "downloadLibraries_loop env f len (emit_check len acc) libs = Inr acc'"
      using Cons.prems(1) by (auto split: if_splits)
    then show ?thesis using step[of "emit_check len acc"] mono by simp
  next
    case False
    then obtain libInfo where li: "getPathLibraries (lib_name lib) (nativeString (platform env) lib) None = Inr libInfo"
      using Cons.prems(1) by (auto split: sum.splits)
    show ?thesis
    proof (cases "existsSync env (libFilePath env libInfo)")
      case True
      then have "downloadLibraries_loop env f len (emit_check len acc) libs = Inr acc'"
        using Cons.prems(1) False li by (auto split: if_splits)
      then show ?thesis using step[of "emit_check len acc"] mono by simp
    next
      case nex: False
      obtain url fileSize where cu: "choose_url env lib libInfo = (url, fileSize)"
        by (cases "choose_url env lib libInfo")
      let ?acc1 = "acc\<lparr>totalSize := totalSize acc + fileSize\<rparr>"
      show ?thesis
      proof (cases "or_default url [] = []")
        case True
        then have "downloadLibraries_loop env f len (emit_not_found (lp_name libInfo) (emit_check len ?acc1)) libs = Inr acc'"
          using Cons.prems(1) False li nex cu by (auto simp: Let_def split: if_splits)
        then show ?thesis
          using step[of "emit_not_found (lp_name libInfo) (emit_check len ?acc1)"] mono by simp
      next
        case hasurl: False
        let ?item = "\<lparr>di_url = or_default url [], di_folder = libFolder env libInfo,
                                di_path = libFilePath env libInfo,
                                di_name = lp_name libInfo, di_size = fileSize\<rparr>"
        let ?acc2 = "emit_check len (?acc1\<lparr>downloadList := downloadList ?acc1 @ [?item]\<rparr>)"
        have run: "downloadLibraries_loop env f len ?acc2 libs = Inr acc'"
          using Cons.prems(1) False li nex cu hasurl by (auto simp: Let_def split: if_splits)
        have "plans_library env lib ?item" by (simp add: plans_library_def li)
        moreover have "\<not> skipLibrary (platform env) lib" using False by simp
        ultimately have "?ok (insert lib S) ?acc2" using mono by auto
        then show ?thesis using step[OF run] by simp
      qed
    qed
  qed
qed

text \<open>
  C1, as the claim has it, fails: a library whose only rule allows another OS is
  denied by no rule, so rule evaluation as the specification words it allows it, yet
  \<open>skipLibrary\<close> skips it.
\<close>

theorem skipLibrary_not_spec_allowed:
  "skipLibrary ''linux''
     \<lparr>lib_name = ''ca.weblite:java-objc-bridge:1.1'',
      lib_rules = Some [\<lparr>rule_action = ''allow'', rule_os = Some \<lparr>os_name = Some ''osx''\<rparr>,
                         rule_features = None\<rparr>],
      lib_natives = None, lib_artifact = None\<rparr>
   \<and> spec_allowed ''linux''
     \<lparr>lib_name = ''ca.weblite:java-objc-bridge:1.1'',
      lib_rules = Some [\<lparr>rule_action = ''allow'', rule_os = Some \<lparr>os_name = Some ''osx''\<rparr>,
                         rule_features = None\<rparr>],
      lib_natives = None, lib_artifact = None\<rparr>"
  by (simp add: skipLibrary_def spec_allowed_def os_applies_def os_clause_matches_def LibMap_def)

text \<open>
  C1, amended. A library without a rules list is never skipped. With a rules list the
  library starts skipped and the last rule that applies decides: a rule applies when it
  has no \<open>features\<close> clause, its action is \<open>allow\<close> or \<open>disallow\<close>, and it has no OS clause
  or one naming the running OS; the library is skipped when that rule is a \<open>disallow\<close>
  or when no rule applies. Every entry of the Forge download plan is the entry of a
  library that was not skipped.
\<close>

theorem skipLibrary_rules:
  "(lib_rules lib = None \<longrightarrow> \<not> skipLibrary pf lib)
   \<and> (\<forall>rs. lib_rules lib = Some rs \<longrightarrow>
         skipLibrary pf lib = (case List.find (rule_applies pf) (rev rs) of
                                 None \<Rightarrow> True
                               | Some r \<Rightarrow> rule_action r = ''disallow''))
   \<and> (\<forall>acc libraries. downloadLibraries env vl il f = Inr (acc, libraries) \<longrightarrow>
         (\<forall>item\<in>set (downloadList acc). \<exists>l\<in>set libraries.
             \<not> skipLibrary (platform env) l \<and> plans_library env l item))"
proof (intro conjI allI impI)
  assume "lib_rules lib = None"
  then show "\<not> skipLibrary pf lib" by (simp add: skipLibrary_def)
next
  fix rs assume "lib_rules lib = Some rs"
  then show "skipLibrary pf lib = (case List.find (rule_applies pf) (rev rs) of
                                 None \<Rightarrow> True
                               | Some r \<Rightarrow> rule_action r = ''disallow'')"
    by (simp add: skipLibrary_def skipLibrary_loop_last)
next
  fix acc libraries
  assume run: "downloadLibraries env vl il f = Inr (acc, libraries)"
  let ?init = "\<lparr>checkCount = 0, downloadList = [], totalSize = 0, plan_events = []\<rparr>"
  from run have "downloadLibraries_loop env f (length libraries) ?init libraries = Inr acc"
    by (auto simp: downloadLibraries_def Let_def split: sum.splits)
  from loop_plan[OF this, of "{}"]
  show "\<forall>item\<in>set (downloadList acc). \<exists>l\<in>set libraries.
             \<not> skipLibrary (platform env) l \<and> plans_library env l item"
    by simp
qed

theorem skipLibrary_rules_witness:
  "skipLibrary ''linux''
     \<lparr>lib_name = ''ca.weblite:java-objc-bridge:1.1'',
      lib_rules = Some [\<lparr>rule_action = ''allow'', rule_os = Some \<lparr>os_name = Some ''osx''\<rparr>,
                         rule_features = None\<rparr>],
      lib_natives = None, lib_artifact = None\<rparr>
   \<and> (\<exists>acc libraries.
        downloadLibraries \<lparr>platform = ''linux'', root = ''/r'', existsSync = (\<lambda>p. False),
      checkMirror = (\<lambda>u. None), error_listener = False\<rparr>
          (Some [\<lparr>lib_name = ''org.ow2.asm:asm:9.5'', lib_rules = None, lib_natives = None,
      lib_artifact = Some \<lparr>art_url = Some ''https://maven.example/asm-9.5.jar'', art_size = 10\<rparr>\<rparr>,
                 \<lparr>lib_name = ''ca.weblite:java-objc-bridge:1.1'',
      lib_rules = Some [\<lparr>rule_action = ''allow'', rule_os = Some \<lparr>os_name = Some ''osx''\<rparr>,
                         rule_features = None\<rparr>],
      lib_natives = None, lib_artifact = None\<rparr>]) None True = Inr (acc, libraries)
        \<and> map di_name (downloadList acc) = [''asm-9.5.jar''])"
  using skipLibrary_rules
    [of "\<lparr>lib_name = ''ca.weblite:java-objc-bridge:1.1'',
      lib_rules = Some [\<lparr>rule_action = ''allow'', rule_os = Some \<lparr>os_name = Some ''osx''\<rparr>,
                         rule_features = None\<rparr>],
      lib_natives = None, lib_artifact = None\<rparr>"
        "''linux''"
        "\<lparr>platform = ''linux'', root = ''/r'', existsSync = (\<lambda>p. False),
      checkMirror = (\<lambda>u. None), error_listener = False\<rparr>"
        "Some [\<lparr>lib_name = ''org.ow2.asm:asm:9.5'', lib_rules = None, lib_natives = None,
      lib_artifact = Some \<lparr>art_url = Some ''https://maven.example/asm-9.5.jar'', art_size = 10\<rparr>\<rparr>,
               \<lparr>lib_name = ''ca.weblite:java-objc-bridge:1.1'',
      lib_rules = Some [\<lparr>rule_action = ''allow'', rule_os = Some \<lparr>os_name = Some ''osx''\<rparr>,
                         rule_features = None\<rparr>],
      lib_natives = None, lib_artifact = None\<rparr>]" None True]
  by (simp add: downloadLibraries_def dedupe_by_name_def skipLibrary_def skipForge_def
      getPathLibraries_def js_index_def js_string_def or_default_def replace_char_def
      nativeString_def nativesSuffix_def libFilePath_def libFolder_def choose_url_def
      emit_check_def no_artifact_url_def os_applies_def LibMap_def rule_applies_def Let_def)

subsection \<open>Redaction\<close>

lemma starts_with_foreign:
  assumes "starts_with t (r @ w)" "r \<noteq> []" "set t \<inter> set r = {}"
  shows "t = []"
  using assms by (cases t; cases r) auto

lemma js_includes_skip:
  assumes "js_includes (r @ w) t" "t \<noteq> []" "set t \<inter> set r = {}"
  shows "js_includes w t"
  using assms
proof (induction r)
  case Nil
  then show ?case by simp
next
  case (Cons c r)
  from Cons.prems(2,3) have "\<not> starts_with t (c # r @ w)"
    by (cases t) auto
  with Cons show ?case by auto
qed

lemma js_includes_drop: "js_includes (drop n s) t \<Longrightarrow> js_includes s t"
proof (induction s arbitrary: n)
  case Nil
  then show ?case by simp
next
  case (Cons x xs)
  then show ?case by (cases n) auto
qed

lemma starts_with_replaceAll:
  assumes "r \<noteq> []" "set t \<inter> set r = {}" "starts_with t (replaceAll s p r)"
  shows "starts_with t s"
  using assms
proof (induction s p r arbitrary: t rule: replaceAll.induct)
  case (1 p r)
  then have "t = []" using starts_with_foreign[of t r "[]"] by (auto split: if_splits)
  then show ?case by simp
next
  case (2 x xs p r)
  show ?case
  proof (cases "p = [] \<or> starts_with p (x # xs)")
    case True
    then have "\<exists>w. replaceAll (x # xs) p r = r @ w" by auto
    then have "t = []" using starts_with_foreign "2.prems" by metis
    then show ?thesis by simp
  next
    case False
    then have R: "replaceAll (x # xs) p r = x # replaceAll xs p r" by simp
    show ?thesis
    proof (cases t)
      case Nil
      then show ?thesis by simp
    next
      case (Cons y t')
      with "2.prems" R have "y = x" "starts_with t' (replaceAll xs p r)" "set t' \<inter> set r = {}"
        by auto
      with "2.IH"(3)[of t'] False "2.prems"(1) have "starts_with t' xs" by simp
      with Cons \<open>y = x\<close> show ?thesis by simp
    qed
  qed
qed

lemma starts_with_Cons_replaceAll:
  assumes "r \<noteq> []" "set t \<inter> set r = {}" "starts_with t (x # replaceAll xs p r)"
  shows "starts_with t (x # xs)"
proof (cases t)
  case Nil
  then show ?thesis by simp
next
  case (Cons y t')
  with assms have "y = x" "starts_with t' (replaceAll xs p r)" "set t' \<inter> set r = {}" by auto
  with starts_with_replaceAll[OF assms(1), of t' xs p] Cons show ?thesis by simp
qed

lemma js_includes_replaceAll:
  assumes "r \<noteq> []" "set t \<inter> set r = {}" "t \<noteq> []" "js_includes (replaceAll s p r) t"
  shows "js_includes s t"
  using assms
proof (induction s p r rule: replaceAll.induct)
  case (1 p r)
  then have "js_includes [] t" using js_includes_skip[of r "[]" t] by (auto split: if_splits)
  then show ?case by simp
next
  case (2 x xs p r)
  consider (empty) "p = []" | (match) "p \<noteq> []" "starts_with p (x # xs)"
    | (nomatch) "p \<noteq> []" "\<not> starts_with p (x # xs)" by blast
  then show ?case
  proof cases
    case empty
    then have "js_includes (r @ x # replaceAll xs p r) t" using "2.prems"(4) by simp
    then have "js_includes (x # replaceAll xs p r) t"
      using js_includes_skip "2.prems" by blast
    then consider "starts_with t (x # replaceAll xs p r)" | "js_includes (replaceAll xs p r) t" by auto
    then show ?thesis
    proof cases
      case 1
      then show ?thesis using starts_with_Cons_replaceAll "2.prems" by auto
    next
      case 2
      then show ?thesis using "2.IH"(1) empty "2.prems" by simp
    qed
  next
    case match
    then have "js_includes (r @ replaceAll (drop (length p) (x # xs)) p r) t" using "2.prems"(4) by simp
    then have "js_includes (replaceAll (drop (length p) (x # xs)) p r) t"
      using js_includes_skip "2.prems" by blast
    then have "js_includes (drop (length p) (x # xs)) t" using "2.IH"(2) match "2.prems" by simp
    then show ?thesis by (rule js_includes_drop)
  next
    case nomatch
    then have "js_includes (x # replaceAll xs p r) t" using "2.prems"(4) by simp
    then consider "starts_with t (x # replaceAll xs p r)" | "js_includes (replaceAll xs p r) t" by auto
    then show ?thesis
    proof cases
      case 1
      then show ?thesis using starts_with_Cons_replaceAll "2.prems" by auto
    next
      case 2
      then show ?thesis using "2.IH"(3) nomatch "2.prems" by simp
    qed
  qed
qed

lemma replaceAll_removes:
  assumes "r \<noteq> []" "set p \<inter> set r = {}" "p \<noteq> []"
  shows "\<not> js_includes (replaceAll s p r) p"
  using assms
proof (induction s p r rule: replaceAll.induct)
  case (1 p r)
  then show ?case by simp
next
  case (2 x xs p r)
  show ?case
  proof (cases "starts_with p (x # xs)")
    case True
    show ?thesis
    proof
      assume "js_includes (replaceAll (x # xs) p r) p"
      then have "js_includes (r @ replaceAll (drop (length p) (x # xs)) p r) p"
        using True "2.prems" by simp
      then have "js_includes (replaceAll (drop (length p) (x # xs)) p r) p"
        using js_includes_skip "2.prems" by blast
      then show False using "2.IH"(2) True "2.prems" by simp
    qed
  next
    case False
    show ?thesis
    proof
      assume "js_includes (replaceAll (x # xs) p r) p"
      then have "js_includes (x # replaceAll xs p r) p" using False "2.prems" by simp
      then consider "starts_with p (x # replaceAll xs p r)" | "js_includes (replaceAll xs p r) p" by auto
      then show False
      proof cases
        case 1
        then show ?thesis using starts_with_Cons_replaceAll "2.prems" False by blast
      next
        case 2
        then show ?thesis using "2.IH"(3) False "2.prems" by simp
      qed
    qed
  qed
qed

lemma replaceAll_prefix: "p \<noteq> [] \<Longrightarrow> replaceAll (p @ w) p r = r @ replaceAll w p r"
  by (cases p) (auto simp: starts_with_append)

lemma js_includes_iff: "js_includes s t \<longleftrightarrow> (\<exists>u v. s = u @ t @ v)"
proof (induction s)
  case Nil
  then show ?case by auto
next
  case (Cons x xs)
  show ?case
  proof
    assume "js_includes (x # xs) t"
    then consider "starts_with t (x # xs)" | "js_includes xs t" by auto
    then show "\<exists>u v. x # xs = u @ t @ v"
    proof cases
      case 1
      then obtain w where "x # xs = t @ w" using starts_with_iff by blast
      then have "x # xs = [] @ t @ w" by simp
      then show ?thesis by blast
    next
      case 2
      then obtain u v where "xs = u @ t @ v" using Cons.IH by blast
      then have "x # xs = (x # u) @ t @ v" by simp
      then show ?thesis by blast
    qed
  next
    assume "\<exists>u v. x # xs = u @ t @ v"
    then obtain u v where uv: "x # xs = u @ t @ v" by blast
    show "js_includes (x # xs) t"
    proof (cases u)
      case Nil
      then have "starts_with t (x # xs)" using uv starts_with_iff by auto
      then show ?thesis by simp
    next
      case (Cons y u')
      then have "xs = u' @ t @ v" using uv by simp
      then have "js_includes xs t" using Cons.IH by blast
      then show ?thesis by simp
    qed
  qed
qed

lemma js_includes_mono: "js_includes a t \<Longrightarrow> js_includes (x @ a @ y) t"
proof -
  assume "js_includes a t"
  then obtain u v where "a = u @ t @ v" using js_includes_iff by blast
  then have "x @ a @ y = (x @ u) @ t @ (v @ y)" by simp
  then show ?thesis using js_includes_iff by blast
qed

lemma js_includes_append_cases:
  assumes "js_includes (a @ b) t" "t \<noteq> []" "a = [] \<or> last a \<notin> set t"
  shows "js_includes a t \<or> js_includes b t"
proof -
  from assms(1) obtain u v where uv: "a @ b = u @ t @ v" using js_includes_iff by blast
  then consider (left) w where "a = u @ w" "w @ b = t @ v" | (right) w where "a @ w = u" "b = w @ t @ v"
    by (auto simp: append_eq_append_conv2)
  then show ?thesis
  proof cases
    case right
    then show ?thesis using js_includes_iff by blast
  next
    case left
    from left(2) consider (in_a) z where "w = t @ z" "z @ b = v" | (across) z where "w @ z = t" "b = z @ v"
      by (auto simp: append_eq_append_conv2)
    then show ?thesis
    proof cases
      case in_a
      then have "a = u @ t @ z" using left(1) by simp
      then show ?thesis using js_includes_iff by blast
    next
      case across
      show ?thesis
      proof (cases "w = []")
        case True
        then have "b = [] @ t @ v" using across by simp
        then show ?thesis using js_includes_iff by blast
      next
        case False
        then have "a \<noteq> []" "last a = last w" using left(1) by auto
        moreover have "last w \<in> set t" using across(1) False by (metis last_in_set set_append UnI1)
        ultimately show ?thesis using assms(3) by simp
      qed
    qed
  qed
qed

lemma strip_keeps_absent:
  "p \<noteq> [] \<Longrightarrow> t \<noteq> [] \<Longrightarrow> seams_clear t p prev s
   \<Longrightarrow> prev = (if pre = [] then None else Some (last pre))
   \<Longrightarrow> js_includes (pre @ replaceAll s p []) t \<Longrightarrow> js_includes (pre @ s) t"
proof (induction t p prev s arbitrary: pre rule: seams_clear.induct)
  case (1 t p prev)
  then show ?case by simp
next
  case (2 t p prev x xs)
  note ne = "2.prems"(1,2)
  show ?case
  proof (cases "starts_with p (x # xs)")
    case True
    define w where "w = drop (length p) (x # xs)"
    have w: "x # xs = p @ w"
      using True starts_with_take[of p "x # xs"] append_take_drop_id[of "length p" "x # xs"]
      unfolding w_def by metis
    from True ne "2.prems"(3) have sc: "seams_clear t p prev w"
      and guard: "(case prev of None \<Rightarrow> True | Some c \<Rightarrow> c \<notin> set t)"
      unfolding w_def by simp_all
    from True ne "2.prems"(5) have "js_includes (pre @ replaceAll w p []) t"
      unfolding w_def by simp
    then have "js_includes (pre @ w) t"
      using "2.IH"(1)[of pre] True ne sc "2.prems"(4) unfolding w_def by simp
    moreover have "pre = [] \<or> last pre \<notin> set t"
      using guard "2.prems"(4) by (cases "pre = []") auto
    ultimately have "js_includes pre t \<or> js_includes w t"
      using js_includes_append_cases ne(2) by blast
    then have "js_includes (pre @ p @ w) t"
      using js_includes_mono[of pre t "[]" "p @ w"] js_includes_mono[of w t "pre @ p" "[]"] by auto
    then show ?thesis using w by simp
  next
    case False
    from False ne "2.prems"(3) have sc: "seams_clear t p (Some x) xs" by simp
    from False ne "2.prems"(5) have inc: "js_includes ((pre @ [x]) @ replaceAll xs p []) t" by simp
    have "js_includes ((pre @ [x]) @ xs) t"
    proof (rule "2.IH"(2))
      show "p \<noteq> []" "\<not> starts_with p (x # xs)" "p \<noteq> []" "t \<noteq> []"
        using ne False by simp_all
      show "seams_clear t p (Some x) xs" by (rule sc)
      show "Some x = (if pre @ [x] = [] then None else Some (last (pre @ [x])))" by simp
      show "js_includes ((pre @ [x]) @ replaceAll xs p []) t" by (rule inc)
    qed
    then show ?thesis by simp
  qed
qed

lemma replaceAll_absent: "p \<noteq> [] \<Longrightarrow> \<not> js_includes s p \<Longrightarrow> replaceAll s p r = s"
  by (induction s p r rule: replaceAll.induct) auto

lemma replaceAll_first_occurrence:
  assumes "p \<noteq> []" "\<not> js_includes (g @ butlast p) p"
  shows "replaceAll (g @ p @ rest) p r = g @ r @ replaceAll rest p r"
  using assms(2)
proof (induction g)
  case Nil
  then show ?case using assms(1) replaceAll_prefix by simp
next
  case (Cons x g)
  have "\<not> starts_with p (x # g @ p @ rest)"
  proof
    assume "starts_with p (x # g @ p @ rest)"
    then have tk: "take (length p) ((x # g) @ p @ rest) = p" using starts_with_take by simp
    have le: "length p \<le> length ((x # g) @ butlast p)" by simp
    have "(x # g) @ butlast p = take (length ((x # g) @ butlast p)) ((x # g) @ p @ rest)"
      by (simp add: butlast_conv_take)
    then have "take (length p) ((x # g) @ butlast p) = take (length p) ((x # g) @ p @ rest)"
      using le by (metis min.absorb2 take_take min.commute)
    then have "starts_with p ((x # g) @ butlast p)" using tk starts_with_take by simp
    then show False using Cons.prems by simp
  qed
  moreover have "\<not> js_includes (g @ butlast p) p" using Cons.prems by simp
  ultimately show ?case using Cons.IH assms(1) by simp
qed

text \<open>
  C3, as the claim has it, fails. The display name is not among the redacted fields
  and stays in the logged command line. And the removal of the root path, which comes
  after the redaction, can put a credential together from the text on its two sides.
\<close>

theorem display_name_not_redacted:
  "launch_log_line
     \<lparr>opt_path = ''/r'', opt_instance = None,
       authenticator = Some \<lparr>cred_name = ''Steve'', uuid = Some ''u-1'',
                              access_token = Some ''tok'', client_token = Some ''cli'',
                              xboxAccount_xuid = None\<rparr>,
       downloadFileMultiple = Numeric (Finite 5)\<rparr>
     [''--username'', ''Steve'', ''--accessToken'', ''tok'']
   = ''Launching with arguments --username Steve --accessToken ????????''
   \<and> js_includes (launch_log_line
     \<lparr>opt_path = ''/r'', opt_instance = None,
       authenticator = Some \<lparr>cred_name = ''Steve'', uuid = Some ''u-1'',
                              access_token = Some ''tok'', client_token = Some ''cli'',
                              xboxAccount_xuid = None\<rparr>,
       downloadFileMultiple = Numeric (Finite 5)\<rparr>
     [''--username'', ''Steve'', ''--accessToken'', ''tok'']) ''Steve''
   \<and> launch_log_line
     \<lparr>opt_path = ''/r'', opt_instance = None,
       authenticator = Some \<lparr>cred_name = ''Steve'', uuid = Some ''u-1'',
                              access_token = Some ''tok'', client_token = Some ''cli'',
                              xboxAccount_xuid = None\<rparr>,
       downloadFileMultiple = Numeric (Finite 5)\<rparr>
     [''--server'', ''t/r/ok'']
   = ''Launching with arguments --server tok''
   \<and> js_includes (launch_log_line
     \<lparr>opt_path = ''/r'', opt_instance = None,
       authenticator = Some \<lparr>cred_name = ''Steve'', uuid = Some ''u-1'',
                              access_token = Some ''tok'', client_token = Some ''cli'',
                              xboxAccount_xuid = None\<rparr>,
       downloadFileMultiple = Numeric (Finite 5)\<rparr>
     [''--server'', ''t/r/ok'']) ''tok''"
  by (simp add: launch_log_line_def argumentsLogs_def redactCredentials_def auth_field_def js_string_def)

text \<open>
  C3, amended. The logged line is \<open>Launching with arguments\<close> and a space, followed by
  the joined arguments in which first the access token, the client token, the unique
  identifier and the xuid have been replaced, in this order, by eight \<open>?\<close>, and then
  the root path followed by \<open>/\<close> has been removed. A replacement puts the eight \<open>?\<close> in
  the place of the first occurrence and goes on behind it. The display name is not
  replaced, and the line does not depend on it; a command line that holds none of the
  four fields and no root path is logged as it is. For each of the four fields that is
  not empty and has no \<open>?\<close> in it: the redacted command line does not contain it; if
  moreover no character of the field stands, in the text that is kept, just before a
  removed occurrence of the root path, the command line as logged does not contain it
  either; and if the field has no space in it and does not occur in the fixed text at
  the start, the whole logged line does not contain it. A redacted command line that
  starts with the root path loses that prefix.
\<close>

theorem redaction_of_credentials:
  "argumentsLogs opt Arguments =
     replaceAll
       (replaceAll
         (replaceAll
           (replaceAll
             (replaceAll (join '' '' Arguments) (js_string (auth_field access_token opt)) ''????????'')
             (js_string (auth_field client_token opt)) ''????????'')
           (js_string (auth_field uuid opt)) ''????????'')
         (js_string (auth_field xboxAccount_xuid opt)) ''????????'')
       (opt_path opt @ ''/'') []
   \<and> launch_log_line opt Arguments = ''Launching with arguments '' @ argumentsLogs opt Arguments
   \<and> (\<forall>t g rest. t \<noteq> [] \<and> \<not> js_includes (g @ butlast t) t \<longrightarrow>
         replaceAll (g @ t @ rest) t ''????????'' = g @ ''????????'' @ replaceAll rest t ''????????'')
   \<and> (\<forall>t\<in>set (redacted_fields opt). t \<noteq> [] \<and> CHR ''?'' \<notin> set t \<longrightarrow>
         \<not> js_includes (redactCredentials opt (join '' '' Arguments)) t
       \<and> (seams_clear t (opt_path opt @ ''/'') None (redactCredentials opt (join '' '' Arguments)) \<longrightarrow>
             \<not> js_includes (argumentsLogs opt Arguments) t
           \<and> (CHR '' '' \<notin> set t \<and> \<not> js_includes ''Launching with arguments '' t \<longrightarrow>
                 \<not> js_includes (launch_log_line opt Arguments) t)))
   \<and> (\<forall>n. launch_log_line
              (opt\<lparr>authenticator := map_option (\<lambda>c. c\<lparr>cred_name := n\<rparr>) (authenticator opt)\<rparr>)
              Arguments
            = launch_log_line opt Arguments)
   \<and> ((\<forall>t\<in>set (redacted_fields opt). t \<noteq> [] \<and> \<not> js_includes (join '' '' Arguments) t)
        \<and> \<not> js_includes (join '' '' Arguments) (opt_path opt @ ''/'') \<longrightarrow>
        launch_log_line opt Arguments = ''Launching with arguments '' @ join '' '' Arguments)
   \<and> (\<forall>w. redactCredentials opt (join '' '' Arguments) = opt_path opt @ ''/'' @ w \<longrightarrow>
          argumentsLogs opt Arguments = replaceAll w (opt_path opt @ ''/'') [])"
proof (intro conjI ballI allI impI)
  show "argumentsLogs opt Arguments =
     replaceAll
       (replaceAll
         (replaceAll
           (replaceAll
             (replaceAll (join '' '' Arguments) (js_string (auth_field access_token opt)) ''????????'')
             (js_string (auth_field client_token opt)) ''????????'')
           (js_string (auth_field uuid opt)) ''????????'')
         (js_string (auth_field xboxAccount_xuid opt)) ''????????'')
       (opt_path opt @ ''/'') []"
    by (simp add: argumentsLogs_def redactCredentials_def Let_def)
  show "launch_log_line opt Arguments = ''Launching with arguments '' @ argumentsLogs opt Arguments"
    by (simp add: launch_log_line_def)
next
  fix t g rest
  assume "t \<noteq> [] \<and> \<not> js_includes (g @ butlast t) t"
  then show "replaceAll (g @ t @ rest) t ''????????'' = g @ ''????????'' @ replaceAll rest t ''????????''"
    using replaceAll_first_occurrence by blast
next
  fix n
  show "launch_log_line
              (opt\<lparr>authenticator := map_option (\<lambda>c. c\<lparr>cred_name := n\<rparr>) (authenticator opt)\<rparr>)
              Arguments
            = launch_log_line opt Arguments"
    by (cases "authenticator opt")
       (simp_all add: launch_log_line_def argumentsLogs_def redactCredentials_def auth_field_def)
next
  assume a: "(\<forall>t\<in>set (redacted_fields opt). t \<noteq> [] \<and> \<not> js_includes (join '' '' Arguments) t)
        \<and> \<not> js_includes (join '' '' Arguments) (opt_path opt @ ''/'')"
  then have "redactCredentials opt (join '' '' Arguments) = join '' '' Arguments"
    by (simp add: redactCredentials_def redacted_fields_def replaceAll_absent)
  with a show "launch_log_line opt Arguments = ''Launching with arguments '' @ join '' '' Arguments"
    by (simp add: launch_log_line_def argumentsLogs_def replaceAll_absent)
next
  fix w
  assume "redactCredentials opt (join '' '' Arguments) = opt_path opt @ ''/'' @ w"
  then show "argumentsLogs opt Arguments = replaceAll w (opt_path opt @ ''/'') []"
    using replaceAll_prefix[of "opt_path opt @ ''/''" w "[]"] by (simp add: argumentsLogs_def)
next
  fix t
  assume t: "t \<in> set (redacted_fields opt)" and ok: "t \<noteq> [] \<and> CHR ''?'' \<notin> set t"
  then have clean: "set t \<inter> set ''????????'' = {}" and ne: "t \<noteq> []" by auto
  have removed: "\<And>u. \<not> js_includes (replaceAll u t ''????????'') t"
    using replaceAll_removes[OF _ clean ne] by simp
  have kept: "\<And>u p. \<not> js_includes u t \<Longrightarrow> \<not> js_includes (replaceAll u p ''????????'') t"
    using js_includes_replaceAll[OF _ clean ne] by blast
  from t consider "t = js_string (auth_field access_token opt)"
    | "t = js_string (auth_field client_token opt)"
    | "t = js_string (auth_field uuid opt)"
    | "t = js_string (auth_field xboxAccount_xuid opt)"
    by (auto simp: redacted_fields_def)
  then show red: "\<not> js_includes (redactCredentials opt (join '' '' Arguments)) t"
  proof cases
    case 1
    then show ?thesis unfolding redactCredentials_def Let_def
      using removed kept by metis
  next
    case 2
    then show ?thesis unfolding redactCredentials_def Let_def
      using removed kept by metis
  next
    case 3
    then show ?thesis unfolding redactCredentials_def Let_def
      using removed kept by metis
  next
    case 4
    then show ?thesis unfolding redactCredentials_def Let_def
      using removed kept by metis
  qed
  assume seams: "seams_clear t (opt_path opt @ ''/'') None (redactCredentials opt (join '' '' Arguments))"
  show args: "\<not> js_includes (argumentsLogs opt Arguments) t"
  proof
    assume "js_includes (argumentsLogs opt Arguments) t"
    then have "js_includes ([] @ replaceAll (redactCredentials opt (join '' '' Arguments)) (opt_path opt @ ''/'') []) t"
      by (simp add: argumentsLogs_def)
    then have "js_includes ([] @ redactCredentials opt (join '' '' Arguments)) t"
      using strip_keeps_absent[of "opt_path opt @ ''/''" t None _ "[]"] ne seams by simp
    then show False using red by simp
  qed
  assume plain: "CHR '' '' \<notin> set t \<and> \<not> js_includes ''Launching with arguments '' t"
  show "\<not> js_includes (launch_log_line opt Arguments) t"
  proof
    assume "js_includes (launch_log_line opt Arguments) t"
    then have "js_includes (''Launching with arguments '' @ argumentsLogs opt Arguments) t"
      by (simp add: launch_log_line_def)
    moreover have "last ''Launching with arguments '' \<notin> set t" using plain by simp
    ultimately have "js_includes ''Launching with arguments '' t \<or> js_includes (argumentsLogs opt Arguments) t"
      using js_includes_append_cases[of "''Launching with arguments ''" _ t] ne by blast
    then show False using plain args by blast
  qed
qed

theorem redaction_witness:
  "launch_log_line
     \<lparr>opt_path = ''/r'', opt_instance = None,
       authenticator = Some \<lparr>cred_name = ''Steve'', uuid = Some ''u-1'',
                              access_token = Some ''tok'', client_token = Some ''cli'',
                              xboxAccount_xuid = None\<rparr>,
       downloadFileMultiple = Numeric (Finite 5)\<rparr>
     [''-cp'', ''/r/lib/a.jar:/r/lib/b.jar'', ''--username'', ''Steve'', ''--accessToken'', ''tok'']
   = ''Launching with arguments -cp lib/a.jar:lib/b.jar --username Steve --accessToken ????????''
   \<and> seams_clear ''tok'' ''/r/'' None
        (redactCredentials
          \<lparr>opt_path = ''/r'', opt_instance = None,
            authenticator = Some \<lparr>cred_name = ''Steve'', uuid = Some ''u-1'',
                                   access_token = Some ''tok'', client_token = Some ''cli'',
                                   xboxAccount_xuid = None\<rparr>,
            downloadFileMultiple = Numeric (Finite 5)\<rparr>
          (join '' '' [''-cp'', ''/r/lib/a.jar:/r/lib/b.jar'', ''--username'', ''Steve'',
                       ''--accessToken'', ''tok'']))
   \<and> \<not> js_includes (launch_log_line
     \<lparr>opt_path = ''/r'', opt_instance = None,
       authenticator = Some \<lparr>cred_name = ''Steve'', uuid = Some ''u-1'',
                              access_token = Some ''tok'', client_token = Some ''cli'',
                              xboxAccount_xuid = None\<rparr>,
       downloadFileMultiple = Numeric (Finite 5)\<rparr>
     [''-cp'', ''/r/lib/a.jar:/r/lib/b.jar'', ''--username'', ''Steve'', ''--accessToken'', ''tok''])
     ''tok''"
proof -
  let ?opt = "\<lparr>opt_path = ''/r'', opt_instance = None,
       authenticator = Some \<lparr>cred_name = ''Steve'', uuid = Some ''u-1'',
                              access_token = Some ''tok'', client_token = Some ''cli'',
                              xboxAccount_xuid = None\<rparr>,
       downloadFileMultiple = Numeric (Finite 5)\<rparr>"
  let ?A = "[''-cp'', ''/r/lib/a.jar:/r/lib/b.jar'', ''--username'', ''Steve'', ''--accessToken'', ''tok'']"
  have red: "redactCredentials ?opt (join '' '' ?A)
      = ''-cp /r/lib/a.jar:/r/lib/b.jar --username Steve --accessToken ????????''"
    by (simp add: redactCredentials_def auth_field_def js_string_def)
  have line: "launch_log_line ?opt ?A
      = ''Launching with arguments -cp lib/a.jar:lib/b.jar --username Steve --accessToken ????????''"
    unfolding launch_log_line_def argumentsLogs_def red by simp
  have seams: "seams_clear ''tok'' (opt_path ?opt @ ''/'') None (redactCredentials ?opt (join '' '' ?A))"
    unfolding red by simp
  have field: "''tok'' \<in> set (redacted_fields ?opt)"
    by (simp add: redacted_fields_def auth_field_def js_string_def)
  have plain: "CHR '' '' \<notin> set ''tok'' \<and> \<not> js_includes ''Launching with arguments '' ''tok''"
    by simp
  note inst = redaction_of_credentials[of ?opt ?A]
  from inst[THEN conjunct2, THEN conjunct2, THEN conjunct2, THEN conjunct1, rule_format, OF field]
  have "\<not> js_includes (launch_log_line ?opt ?A) ''tok''"
    using seams plain by simp
  then show ?thesis using line seams by simp
qed

subsection \<open>The end of the game process\<close>

lemma digit_char_digit: "digit_char n \<in> set ''0123456789''"
  unfolding digit_char_def by (rule nth_mem) simp

lemma digit_char_neq [simp]:
  "digit_char n \<noteq> CHR '':''" "digit_char n \<noteq> CHR ''T''" "digit_char n \<noteq> CHR ''/''"
  "CHR '':'' \<noteq> digit_char n" "CHR ''T'' \<noteq> digit_char n" "CHR ''/'' \<noteq> digit_char n"
  using digit_char_digit[of n] by auto

lemma timestamp_format:
  "timestamp now = pad4 (d_year now) @ ''-'' @ pad2 (d_month now) @ ''-'' @ pad2 (d_day now) @ ''_''
       @ pad2 (d_hours now) @ ''-'' @ pad2 (d_minutes now) @ ''-'' @ pad2 (d_seconds now)"
proof -
  let ?B = "pad4 (d_year now) @ ''-'' @ pad2 (d_month now) @ ''-'' @ pad2 (d_day now)"
  let ?E = "pad2 (d_hours now) @ ''-'' @ pad2 (d_minutes now) @ ''-'' @ pad2 (d_seconds now)"
  have 1: "replace_char CHR '':'' CHR ''-'' (take 19 (toISOString now)) = ?B @ CHR ''T'' # ?E"
    by (simp add: toISOString_def pad4_def pad2_def pad3_def replace_char_def)
  have 2: "CHR ''T'' \<notin> set ?B"
    by (simp add: pad4_def pad2_def)
  have "timestamp now = replace_first (?B @ CHR ''T'' # ?E) ''T'' ''_''"
    unfolding timestamp_def 1 ..
  also have "\<dots> = ?B @ ''_'' @ ?E"
    by (rule replace_first_at[OF 2])
  finally show ?thesis by simp
qed

lemma timestamp_plain: "CHR ''/'' \<notin> set (timestamp now)" "length (timestamp now) = 19"
  by (simp_all add: timestamp_format pad4_def pad2_def)

lemma map_of_append_fresh:
  "pid \<notin> fst ` set xs \<Longrightarrow> ([pid \<mapsto> v] ++ map_of xs) pid = Some v"
proof -
  assume "pid \<notin> fst ` set xs"
  then have "map_of xs pid = None" by (simp add: map_of_eq_None_iff)
  then show ?thesis by (simp add: map_add_def)
qed

text \<open>
  C4, as the claim has it, fails: the \<open>close\<close> event carries the fixed text
  \<open>Minecraft closed\<close>, not the exit code of the child.
\<close>

theorem close_event_carries_reason_not_exit_code:
  "last (emitted (child_closed (join ''/'') 4711 (Some 1)
          \<lparr>d_year = 2026, d_month = 11, d_day = 3, d_hours = 9, d_minutes = 36, d_seconds = 12,
           d_millis = 123\<rparr>
          (start_spawn (join ''/'')
             \<lparr>opt_path = ''/r'', opt_instance = Some ''main'',
              authenticator = Some \<lparr>cred_name = ''Steve'', uuid = None, access_token = None,
                                     client_token = None, xboxAccount_xuid = None\<rparr>,
              downloadFileMultiple = Numeric (Finite 5)\<rparr>
             [''-jar'', ''game.jar''] 4711 initial_launch)))
     = Event ''close'' [Str ''Minecraft closed'']
   \<and> Event ''close'' [Str ''Minecraft closed''] \<noteq> Event ''close'' [Num 1]"
  by (simp add: child_closed_def start_spawn_def initial_launch_def on_close_def Let_def)

text \<open>
  C4, amended. A game process that is spawned for an instance with a name gets the
  handlers, for the logs directory of that instance, and keeps them while it writes.
  When such a process ends, the handler copies \<open>latest.log\<close>, when it exists, to the file
  of the same logs directory that is named after the time, \<open>YYYY-MM-DD_HH-MM-SS.log\<close>, a
  name without \<open>/\<close>, and leaves every other file as it was; it releases the handle, so
  \<open>getPID\<close> answers \<open>null\<close>; and the last event it emits is \<open>close\<close> with the text
  \<open>Minecraft closed\<close>, whatever the exit code.
\<close>

theorem game_exit_archives_and_releases:
  "(opt_instance opt = Some i \<and> pid \<notin> fst ` set (children st_before) \<longrightarrow>
      map_of (children (start_spawn path_join opt Arguments pid st_before)) pid
        = Some (Some (path_join [path_join [opt_path opt, ''instances'', i], ''logs''])))
   \<and> children (child_output path_join pid' chunk st) = children st
   \<and> (map_of (children st) pid = Some (Some logDir) \<longrightarrow>
        minecraftProcess (child_closed path_join pid code now st) = None
      \<and> getPID (child_closed path_join pid code now st) = None
      \<and> last (emitted (child_closed path_join pid code now st)) = Event ''close'' [Str ''Minecraft closed'']
      \<and> pid \<notin> fst ` set (children (child_closed path_join pid code now st))
      \<and> (\<forall>content. fs st (path_join [logDir, ''latest.log'']) = Some content \<longrightarrow>
            fs (child_closed path_join pid code now st) (path_join [logDir, timestamp now @ ''.log''])
              = Some content)
      \<and> (\<forall>q. q \<noteq> path_join [logDir, timestamp now @ ''.log''] \<longrightarrow>
            fs (child_closed path_join pid code now st) q = fs st q)
      \<and> (fs st (path_join [logDir, ''latest.log'']) = None \<longrightarrow>
            fs (child_closed path_join pid code now st) = fs st))
   \<and> timestamp now = pad4 (d_year now) @ ''-'' @ pad2 (d_month now) @ ''-'' @ pad2 (d_day now) @ ''_''
       @ pad2 (d_hours now) @ ''-'' @ pad2 (d_minutes now) @ ''-'' @ pad2 (d_seconds now)
   \<and> CHR ''/'' \<notin> set (timestamp now @ ''.log'')"
proof (intro conjI impI)
  assume "opt_instance opt = Some i \<and> pid \<notin> fst ` set (children st_before)"
  then show "map_of (children (start_spawn path_join opt Arguments pid st_before)) pid
        = Some (Some (path_join [path_join [opt_path opt, ''instances'', i], ''logs'']))"
    by (simp add: start_spawn_def Let_def map_of_append_fresh)
next
  show "children (child_output path_join pid' chunk st) = children st"
    by (simp add: child_output_def Let_def split: option.splits)
next
  show "timestamp now = pad4 (d_year now) @ ''-'' @ pad2 (d_month now) @ ''-'' @ pad2 (d_day now) @ ''_''
       @ pad2 (d_hours now) @ ''-'' @ pad2 (d_minutes now) @ ''-'' @ pad2 (d_seconds now)"
    by (rule timestamp_format)
next
  show "CHR ''/'' \<notin> set (timestamp now @ ''.log'')"
    using timestamp_plain(1) by simp
next
  assume h: "map_of (children st) pid = Some (Some logDir)"
  show "minecraftProcess (child_closed path_join pid code now st) = None"
    using h by (simp add: child_closed_def on_close_def Let_def split: option.splits)
  show "getPID (child_closed path_join pid code now st) = None"
    using h by (simp add: child_closed_def on_close_def Let_def getPID_def split: option.splits)
  show "last (emitted (child_closed path_join pid code now st)) = Event ''close'' [Str ''Minecraft closed'']"
    using h by (simp add: child_closed_def on_close_def Let_def split: option.splits)
  show "pid \<notin> fst ` set (children (child_closed path_join pid code now st))"
    using h by (auto simp: child_closed_def on_close_def Let_def split: option.splits)
  show "\<forall>content. fs st (path_join [logDir, ''latest.log'']) = Some content \<longrightarrow>
            fs (child_closed path_join pid code now st) (path_join [logDir, timestamp now @ ''.log''])
              = Some content"
    using h by (simp add: child_closed_def on_close_def Let_def)
  show "\<forall>q. q \<noteq> path_join [logDir, timestamp now @ ''.log''] \<longrightarrow>
            fs (child_closed path_join pid code now st) q = fs st q"
    using h by (simp add: child_closed_def on_close_def Let_def split: option.splits)
  assume n: "fs st (path_join [logDir, ''latest.log'']) = None"
  show "fs (child_closed path_join pid code now st) = fs st"
    using h n by (simp add: child_closed_def on_close_def Let_def)
qed

theorem game_exit_witness:
  "fs (child_closed (join ''/'') 4711 (Some 0)
        \<lparr>d_year = 2026, d_month = 11, d_day = 3, d_hours = 9, d_minutes = 36, d_seconds = 12,
         d_millis = 123\<rparr>
        (child_output (join ''/'') 4711 ''[main] Stopping!''
          (start_spawn (join ''/'')
             \<lparr>opt_path = ''/r'', opt_instance = Some ''main'',
              authenticator = Some \<lparr>cred_name = ''Steve'', uuid = None, access_token = None,
                                     client_token = None, xboxAccount_xuid = None\<rparr>,
              downloadFileMultiple = Numeric (Finite 5)\<rparr>
             [''-jar'', ''game.jar''] 4711 initial_launch)))
      ''/r/instances/main/logs/2026-11-03_09-36-12.log'' = Some ''[main] Stopping!''
   \<and> getPID (child_closed (join ''/'') 4711 (Some 0)
        \<lparr>d_year = 2026, d_month = 11, d_day = 3, d_hours = 9, d_minutes = 36, d_seconds = 12,
         d_millis = 123\<rparr>
        (child_output (join ''/'') 4711 ''[main] Stopping!''
          (start_spawn (join ''/'')
             \<lparr>opt_path = ''/r'', opt_instance = Some ''main'',
              authenticator = Some \<lparr>cred_name = ''Steve'', uuid = None, access_token = None,
                                     client_token = None, xboxAccount_xuid = None\<rparr>,
              downloadFileMultiple = Numeric (Finite 5)\<rparr>
             [''-jar'', ''game.jar''] 4711 initial_launch))) = None
   \<and> timestamp \<lparr>d_year = 2026, d_month = 11, d_day = 3, d_hours = 9, d_minutes = 36,
                 d_seconds = 12, d_millis = 123\<rparr> = ''2026-11-03_09-36-12''"
  using game_exit_archives_and_releases
    [where path_join = "join ''/''" and pid = 4711 and code = "Some 0" and logDir = "''/r/instances/main/logs''"
       and i = "''main''" and st_before = initial_launch and Arguments = "[''-jar'', ''game.jar'']"
       and now = "\<lparr>d_year = 2026, d_month = 11, d_day = 3, d_hours = 9, d_minutes = 36,
                    d_seconds = 12, d_millis = 123\<rparr>"
       and opt = "\<lparr>opt_path = ''/r'', opt_instance = Some ''main'',
              authenticator = Some \<lparr>cred_name = ''Steve'', uuid = None, access_token = None,
                                     client_token = None, xboxAccount_xuid = None\<rparr>,
              downloadFileMultiple = Numeric (Finite 5)\<rparr>"
       and st = "child_output (join ''/'') 4711 ''[main] Stopping!''
          (start_spawn (join ''/'')
             \<lparr>opt_path = ''/r'', opt_instance = Some ''main'',
              authenticator = Some \<lparr>cred_name = ''Steve'', uuid = None, access_token = None,
                                     client_token = None, xboxAccount_xuid = None\<rparr>,
              downloadFileMultiple = Numeric (Finite 5)\<rparr>
             [''-jar'', ''game.jar''] 4711 initial_launch)"]
  by (simp add: start_spawn_def child_output_def child_closed_def on_close_def getPID_def
      initial_launch_def Let_def pad4_def pad2_def digit_char_def)


text \<open>
  Without an instance name, which is the default of \<open>Launch.Launch\<close>, the process is
  spawned and its handle stored, but no handler is attached: when the process ends
  nothing is archived, no \<open>close\<close> event is emitted and \<open>getPID\<close> still answers the pid;
  and \<open>killProcess\<close> answers \<open>false\<close>.
\<close>

lemma spawn_without_instance:
  assumes "opt_instance opt = None" "pid \<notin> fst ` set (children st_before)" "0 < pid"
  shows "child_closed path_join pid code now (start_spawn path_join opt Arguments pid st_before)
           = (start_spawn path_join opt Arguments pid st_before)\<lparr>children := children st_before\<rparr>"
    and "getPID (child_closed path_join pid code now (start_spawn path_join opt Arguments pid st_before)) = Some pid"
    and "fst (killProcess (start_spawn path_join opt Arguments pid st_before)) = False"
proof -
  have f: "filter (\<lambda>c. fst c \<noteq> pid) (children st_before) = children st_before"
    using assms(2) by (induction "children st_before") (auto simp: filter_id_conv)
  show "child_closed path_join pid code now (start_spawn path_join opt Arguments pid st_before)
           = (start_spawn path_join opt Arguments pid st_before)\<lparr>children := children st_before\<rparr>"
    using assms by (simp add: child_closed_def start_spawn_def Let_def map_of_append_fresh f)
  then show "getPID (child_closed path_join pid code now (start_spawn path_join opt Arguments pid st_before)) = Some pid"
    using assms by (simp add: getPID_def start_spawn_def Let_def)
  show "fst (killProcess (start_spawn path_join opt Arguments pid st_before)) = False"
    using assms by (simp add: killProcess_def start_spawn_def Let_def)
qed

subsection \<open>The guard of launch\<close>

text \<open>
  As long as calls of \<open>launch\<close> do not overlap and neither \<open>kill\<close> is called nor an
  \<open>error\<close> event emitted, the flag does its work: at most one child is alive, and while
  one is alive a launch is refused and changes nothing.
\<close>

lemma launch_refused_when_flag_set:
  "isRunning w \<Longrightarrow> launch path_join opt Arguments outcome w = (AlreadyRunning, w)"
  by (simp add: launch_def launch_guard_def)

lemma children_filter_single:
  assumes "length xs \<le> 1" "pid \<in> fst ` set xs"
  shows "filter (\<lambda>c. fst c \<noteq> pid) xs = []"
  using assms by (cases xs) auto

lemma quiet_step:
  assumes inv: "length (children (launcher w)) \<le> 1" "children (launcher w) \<noteq> [] \<longrightarrow> isRunning w"
    and q: "quiet_op op"
  shows "length (children (launcher (apply_op path_join w op))) \<le> 1
       \<and> (children (launcher (apply_op path_join w op)) \<noteq> [] \<longrightarrow> isRunning (apply_op path_join w op))"
proof (cases op)
  case (OpLaunch opt Arguments outcome)
  show ?thesis
  proof (cases "isRunning w")
    case True
    then show ?thesis using inv OpLaunch by (simp add: launch_def launch_guard_def)
  next
    case False
    then have "children (launcher w) = []" using inv by blast
    then show ?thesis using False OpLaunch
      by (cases outcome)
         (auto simp: launch_def launch_guard_def launch_rest_def start_spawn_def Let_def
               split: option.splits)
  qed
next
  case (OpChildExit pid code now)
  show ?thesis
  proof (cases "pid \<in> set (live w)")
    case True
    then have "filter (\<lambda>c. fst c \<noteq> pid) (children (launcher w)) = []"
      using children_filter_single[OF inv(1)] by (simp add: live_def)
    then have "children (launcher (child_exit path_join pid code now w)) = []"
      by (auto simp: child_exit_def child_closed_def on_close_def Let_def split: option.splits)
    then show ?thesis using True OpChildExit by simp
  next
    case False
    then show ?thesis using inv OpChildExit by simp
  qed
next
  case OpKill
  then show ?thesis using q by (simp add: quiet_op_def)
next
  case OpError
  then show ?thesis using q by (simp add: quiet_op_def)
qed

lemma guard_holds_without_kill:
  assumes "\<forall>op\<in>set ops. quiet_op op"
  shows "length (live (foldl (apply_op path_join) initial_wrapper ops)) \<le> 1
       \<and> (live (foldl (apply_op path_join) initial_wrapper ops) \<noteq> [] \<longrightarrow>
            launch path_join opt Arguments outcome (foldl (apply_op path_join) initial_wrapper ops)
              = (AlreadyRunning, foldl (apply_op path_join) initial_wrapper ops))"
proof -
  have "length (children (launcher (foldl (apply_op path_join) initial_wrapper ops))) \<le> 1
       \<and> (children (launcher (foldl (apply_op path_join) initial_wrapper ops)) \<noteq> [] \<longrightarrow>
            isRunning (foldl (apply_op path_join) initial_wrapper ops))"
    using assms
  proof (induction ops rule: rev_induct)
    case Nil
    then show ?case by (simp add: initial_wrapper_def initial_launch_def)
  next
    case (snoc op ops)
    then show ?case using quiet_step[of "foldl (apply_op path_join) initial_wrapper ops" op path_join]
      by simp
  qed
  then show ?thesis using launch_refused_when_flag_set by (simp add: live_def)
qed

text \<open>
  C5, on two sequences of calls. First \<open>launch\<close>, \<open>kill\<close>, \<open>launch\<close>: the first launch
  spawns a child, and a second launch at that moment is refused; \<open>kill\<close> sends the signal
  and clears \<open>isRunning\<close> at once, while the child is still alive; the next launch is
  therefore not refused and spawns a second child beside the first. When the first
  child then ends, its handler releases the handle, which by now is that of the second
  child, and the wrapper is idle again while the second child runs on, out of reach of
  \<open>kill\<close>. Second, two calls of \<open>launch\<close> of which the second is made while the first
  still waits for \<open>Launch.Launch\<close>: both pass the guard, since the flag is set only
  after the wait, and both spawn a child.
\<close>

theorem launch_during_termination:
  "(let path_join = join ''/'';
        opt = \<lparr>opt_path = ''/r'', opt_instance = Some ''Fabric1214'',
               authenticator = Some \<lparr>cred_name = ''Steve'', uuid = None, access_token = None,
                                      client_token = None, xboxAccount_xuid = None\<rparr>,
               downloadFileMultiple = Numeric (Finite 5)\<rparr>;
        now = \<lparr>d_year = 2026, d_month = 11, d_day = 3, d_hours = 9, d_minutes = 36,
               d_seconds = 12, d_millis = 123\<rparr>;
        w1 = snd (launch path_join opt [''-jar'', ''game.jar''] (Spawned 4711) initial_wrapper);
        w2 = snd (kill w1);
        w3 = snd (launch path_join opt [''-jar'', ''game.jar''] (Spawned 4712) w2);
        w4 = child_exit path_join 4711 None now w3
    in live w1 = [4711] \<and> isRunning w1
     \<and> fst (launch path_join opt [''-jar'', ''game.jar''] (Spawned 4712) w1) = AlreadyRunning
     \<and> fst (kill w1) \<and> live w2 = [4711] \<and> \<not> isRunning w2
     \<and> fst (launch path_join opt [''-jar'', ''game.jar''] (Spawned 4712) w2) = Launched
     \<and> live w3 = [4711, 4712]
     \<and> live w4 = [4712] \<and> getPID (launcher w4) = None \<and> \<not> isRunning w4
     \<and> fst (kill w4) = False)
   \<and> (let path_join = join ''/'';
        opt = \<lparr>opt_path = ''/r'', opt_instance = Some ''Fabric1214'',
               authenticator = Some \<lparr>cred_name = ''Steve'', uuid = None, access_token = None,
                                      client_token = None, xboxAccount_xuid = None\<rparr>,
               downloadFileMultiple = Numeric (Finite 5)\<rparr>;
        v1 = snd (launch_rest path_join opt [''-jar'', ''game.jar''] (Spawned 4711) initial_wrapper);
        v2 = snd (launch_rest path_join opt [''-jar'', ''game.jar''] (Spawned 4712) v1)
    in launch_guard initial_wrapper \<and> live v1 = [4711] \<and> live v2 = [4711, 4712])"
proof -
  let ?pj = "join ''/''"
  let ?opt = "\<lparr>opt_path = ''/r'', opt_instance = Some ''Fabric1214'',
               authenticator = Some \<lparr>cred_name = ''Steve'', uuid = None, access_token = None,
                                      client_token = None, xboxAccount_xuid = None\<rparr>,
               downloadFileMultiple = Numeric (Finite 5)\<rparr>"
  let ?now = "\<lparr>d_year = 2026, d_month = 11, d_day = 3, d_hours = 9, d_minutes = 36,
               d_seconds = 12, d_millis = 123\<rparr>"
  let ?A = "[''-jar'', ''game.jar'']"
  let ?w1 = "snd (launch ?pj ?opt ?A (Spawned 4711) initial_wrapper)"
  let ?w2 = "snd (kill ?w1)"
  let ?w3 = "snd (launch ?pj ?opt ?A (Spawned 4712) ?w2)"
  let ?w4 = "child_exit ?pj 4711 None ?now ?w3"
  let ?v1 = "snd (launch_rest ?pj ?opt ?A (Spawned 4711) initial_wrapper)"
  let ?v2 = "snd (launch_rest ?pj ?opt ?A (Spawned 4712) ?v1)"
  have f1: "isRunning ?w1" "listeners ?w1"
    "children (launcher ?w1) = [(4711, Some ''/r/instances/Fabric1214/logs'')]"
    "minecraftProcess (launcher ?w1) = Some \<lparr>cp_pid = Some 4711, cp_killed = False\<rparr>"
    "spawnPromise (launcher ?w1) = SpawnResolved"
    by (simp_all add: launch_def launch_guard_def launch_rest_def start_spawn_def Let_def
        initial_wrapper_def initial_launch_def)
  have r1: "fst (launch ?pj ?opt ?A (Spawned 4712) ?w1) = AlreadyRunning"
    using f1 by (simp add: launch_def launch_guard_def)
  have k1: "fst (kill ?w1)"
    using f1 by (simp add: kill_def killProcess_def)
  have f2: "\<not> isRunning ?w2" "listeners ?w2"
    "children (launcher ?w2) = [(4711, Some ''/r/instances/Fabric1214/logs'')]"
    using f1 by (simp_all add: kill_def killProcess_def)
  have r2: "fst (launch ?pj ?opt ?A (Spawned 4712) ?w2) = Launched"
    using f2 by (simp add: launch_def launch_guard_def launch_rest_def)
  have f3: "isRunning ?w3" "listeners ?w3"
    "children (launcher ?w3) = [(4711, Some ''/r/instances/Fabric1214/logs''),
                                (4712, Some ''/r/instances/Fabric1214/logs'')]"
    "minecraftProcess (launcher ?w3) = Some \<lparr>cp_pid = Some 4712, cp_killed = False\<rparr>"
    using f2 by (simp_all add: launch_def launch_guard_def launch_rest_def start_spawn_def Let_def)
  have f4: "\<not> isRunning ?w4"
    "children (launcher ?w4) = [(4712, Some ''/r/instances/Fabric1214/logs'')]"
    "minecraftProcess (launcher ?w4) = None"
    using f3 by (simp_all add: child_exit_def child_closed_def on_close_def Let_def split: option.splits)
  have k4: "fst (kill ?w4) = False"
    using f4 by (simp add: kill_def)
  have g: "launch_guard initial_wrapper"
    by (simp add: launch_guard_def initial_wrapper_def)
  have v1: "children (launcher ?v1) = [(4711, Some ''/r/instances/Fabric1214/logs'')]"
    by (simp add: launch_rest_def start_spawn_def Let_def initial_wrapper_def initial_launch_def)
  have v2: "children (launcher ?v2) = [(4711, Some ''/r/instances/Fabric1214/logs''),
                                       (4712, Some ''/r/instances/Fabric1214/logs'')]"
    using v1 by (simp add: launch_rest_def start_spawn_def Let_def)
  show ?thesis
    unfolding Let_def live_def getPID_def
    using f1 r1 k1 f2 r2 f3 f4 k4 g v1 v2 by simp
qed

theorem launch_during_termination_witness:
  "live (snd (launch (join ''/'')
            \<lparr>opt_path = ''/r'', opt_instance = Some ''Fabric1214'',
              authenticator = Some \<lparr>cred_name = ''Steve'', uuid = None, access_token = None,
                                     client_token = None, xboxAccount_xuid = None\<rparr>,
              downloadFileMultiple = Numeric (Finite 5)\<rparr>
            [''-jar'', ''game.jar''] (Spawned 4712)
            (snd (kill (snd (launch (join ''/'')
               \<lparr>opt_path = ''/r'', opt_instance = Some ''Fabric1214'',
                 authenticator = Some \<lparr>cred_name = ''Steve'', uuid = None, access_token = None,
                                        client_token = None, xboxAccount_xuid = None\<rparr>,
                 downloadFileMultiple = Numeric (Finite 5)\<rparr>
               [''-jar'', ''game.jar''] (Spawned 4711) initial_wrapper))))))
     = [4711, 4712]"
  using launch_during_termination unfolding Let_def by blast

subsection \<open>The Forge installer\<close>

lemma installer_fileName_no_slash: "CHR ''/'' \<notin> set (installer_fileName forgeURL e)"
  using split_on_parts_no_sep[of "last (split_on CHR ''/'' (forgeURL @ ''.'' @ js_string e))" "CHR ''/''"
      "forgeURL @ ''.'' @ js_string e"] split_on_nonempty[of "CHR ''/''" "forgeURL @ ''.'' @ js_string e"]
  by (simp add: installer_fileName_def js_pop_def js_string_def)

lemma fetch_and_verify_mismatch:
  assumes "plain_name (installer_fileName forgeURL e)"
    and "files (installerPath opts forgeURL e) = Some content
           \<or> (files (installerPath opts forgeURL e) = None
               \<and> fetch_file env (forgeURL @ ''.'' @ js_string e) = Body content)"
    and "Some (md5 env content) \<noteq> h"
  shows "fetch_and_verify env opts forgeURL e h files
         = (Inl InvalidHash, files(installerPath opts forgeURL e := None))"
  using assms
  by (auto simp: fetch_and_verify_def downloadFile_def installerPath_def Let_def)

lemma fetch_and_verify_match:
  assumes "plain_name (installer_fileName forgeURL e)"
    and "files (installerPath opts forgeURL e) = Some content
           \<or> (files (installerPath opts forgeURL e) = None
               \<and> fetch_file env (forgeURL @ ''.'' @ js_string e) = Body content)"
    and "Some (md5 env content) = h"
  shows "fetch_and_verify env opts forgeURL e h files
         = (Inr (installerPath opts forgeURL e), files(installerPath opts forgeURL e \<mapsto> content))"
  using assms
  by (auto simp: fetch_and_verify_def downloadFile_def installerPath_def Let_def map_upd_triv)

lemma fetch_and_verify_InvalidHash:
  assumes "fetch_and_verify env opts forgeURL e h files = (Inl InvalidHash, files')"
  shows "plain_name (installer_fileName forgeURL e)
         \<and> files' (installerPath opts forgeURL e) = None
         \<and> (\<forall>q. q \<noteq> installerPath opts forgeURL e \<longrightarrow> files' q = files q)"
  using assms
  by (auto simp: fetch_and_verify_def downloadFile_def installerPath_def Let_def
      split: if_splits fetch_result.splits option.splits)

lemma fetch_and_verify_Inr:
  assumes "fetch_and_verify env opts forgeURL e h files = (Inr p, files')"
  shows "plain_name (installer_fileName forgeURL e) \<and> p = installerPath opts forgeURL e
         \<and> (\<exists>c. files' p = Some c \<and> h = Some (md5 env c))"
  using assms
  by (auto simp: fetch_and_verify_def downloadFile_def installerPath_def Let_def
      split: if_splits fetch_result.splits option.splits)

lemma resolve_build_errors:
  "resolve_build env L opts = Inl e \<Longrightarrow> e = RequestFailed \<or> e = NotSupported \<or> e = BuildNotFound"
  by (auto simp: resolve_build_def Let_def split: option.splits sum.splits if_splits)

lemma installerPath_plain:
  "plain_name (installer_fileName forgeURL e) \<Longrightarrow>
   installerPath opts forgeURL e
     = fo_path opts @ ''/libraries/net/minecraftforge/installer/'' @ installer_fileName forgeURL e"
  by (simp add: installerPath_def forgeFolder_def)

text \<open>
  C6. The installer flavor is \<open>installer\<close> when the metadata has it, else \<open>client\<close>,
  else \<open>universal\<close>, and without any of them the installation is rejected as an invalid
  installer. The extension and the expected hash are the first key of the classifier of
  that flavor and the hash the metadata gives for that key (an empty classifier gives
  neither). The URL is the one of the flavor with the build put in for the placeholder,
  literally when the build has no \<open>$\<close>. The installer file is
  \<open>libraries/net/minecraftforge/installer/\<close> followed by a file name proper. With the
  content of that file, found on disk or just downloaded: when its MD5 differs from
  the expected hash, the file is removed and the answer is the error \<open>Invalid hash\<close>; when
  it is the expected hash, the answer is the installer, with that file on disk.
  Whenever \<open>Invalid hash\<close> is the answer the file is not on disk and no other file has
  changed; and a successful answer names a file directly in that directory whose MD5
  is the hash that the metadata gives.
\<close>

theorem downloadInstaller_checks_installer:
  "(\<forall>e h m. cl_installer cl = Some ((e, h) # m) \<longrightarrow>
      forge_flavor L b cl = Some (fill_placeholder (ld_install L) ''${version}'' b, Some e, Some h))
   \<and> (\<forall>e h m. cl_installer cl = None \<and> cl_client cl = Some ((e, h) # m) \<longrightarrow>
      forge_flavor L b cl = Some (fill_placeholder (ld_client L) ''${version}'' b, Some e, Some h))
   \<and> (\<forall>e h m. cl_installer cl = None \<and> cl_client cl = None \<and> cl_universal cl = Some ((e, h) # m) \<longrightarrow>
      forge_flavor L b cl = Some (fill_placeholder (ld_universal L) ''${version}'' b, Some e, Some h))
   \<and> (cl_installer cl = Some [] \<longrightarrow>
      forge_flavor L b cl = Some (fill_placeholder (ld_install L) ''${version}'' b, None, None))
   \<and> (cl_installer cl = None \<and> cl_client cl = Some [] \<longrightarrow>
      forge_flavor L b cl = Some (fill_placeholder (ld_client L) ''${version}'' b, None, None))
   \<and> (cl_installer cl = None \<and> cl_client cl = None \<and> cl_universal cl = Some [] \<longrightarrow>
      forge_flavor L b cl = Some (fill_placeholder (ld_universal L) ''${version}'' b, None, None))
   \<and> (cl_installer cl = None \<and> cl_client cl = None \<and> cl_universal cl = None \<longrightarrow>
      forge_flavor L b cl = None)
   \<and> (CHR ''$'' \<notin> set b \<longrightarrow>
        fill_placeholder (ld_install L) ''${version}'' b = replaceAll (ld_install L) ''${version}'' b
      \<and> fill_placeholder (ld_client L) ''${version}'' b = replaceAll (ld_client L) ''${version}'' b
      \<and> fill_placeholder (ld_universal L) ''${version}'' b = replaceAll (ld_universal L) ''${version}'' b)
   \<and> (\<forall>build chosen cl'.
        resolve_build env L opts = Inr (build, chosen)
        \<and> fetch_meta env (fill_placeholder (ld_meta L) ''${build}'' chosen) = Some cl'
        \<and> forge_flavor L chosen cl' = None
        \<longrightarrow> downloadInstaller env L opts files = (Inl InvalidInstaller, files))
   \<and> (\<forall>build chosen cl' forgeURL e h content.
        resolve_build env L opts = Inr (build, chosen)
        \<and> fetch_meta env (fill_placeholder (ld_meta L) ''${build}'' chosen) = Some cl'
        \<and> forge_flavor L chosen cl' = Some (forgeURL, e, h)
        \<and> plain_name (installer_fileName forgeURL e)
        \<and> (files (installerPath opts forgeURL e) = Some content
            \<or> (files (installerPath opts forgeURL e) = None
                \<and> fetch_file env (forgeURL @ ''.'' @ js_string e) = Body content))
        \<longrightarrow> installerPath opts forgeURL e
              = fo_path opts @ ''/libraries/net/minecraftforge/installer/'' @ installer_fileName forgeURL e
          \<and> (Some (md5 env content) \<noteq> h \<longrightarrow>
               downloadInstaller env L opts files
                 = (Inl InvalidHash, files(installerPath opts forgeURL e := None)))
          \<and> (Some (md5 env content) = h \<longrightarrow>
               downloadInstaller env L opts files
                 = (Inr \<lparr>filePath = installerPath opts forgeURL e, metaData = chosen, ext = e,
                         installer_id = ''forge-'' @ js_string build\<rparr>,
                    files(installerPath opts forgeURL e \<mapsto> content))))
   \<and> (\<forall>files'. downloadInstaller env L opts files = (Inl InvalidHash, files') \<longrightarrow>
        (\<exists>n. plain_name n \<and> CHR ''/'' \<notin> set n
             \<and> files' (fo_path opts @ ''/libraries/net/minecraftforge/installer/'' @ n) = None
             \<and> (\<forall>q. q \<noteq> fo_path opts @ ''/libraries/net/minecraftforge/installer/'' @ n \<longrightarrow>
                    files' q = files q)))
   \<and> (\<forall>r files'. downloadInstaller env L opts files = (Inr r, files') \<longrightarrow>
        (\<exists>n build chosen cl' forgeURL e c.
              plain_name n \<and> CHR ''/'' \<notin> set n
              \<and> filePath r = fo_path opts @ ''/libraries/net/minecraftforge/installer/'' @ n
              \<and> resolve_build env L opts = Inr (build, chosen)
              \<and> fetch_meta env (fill_placeholder (ld_meta L) ''${build}'' chosen) = Some cl'
              \<and> forge_flavor L chosen cl' = Some (forgeURL, e, Some (md5 env c))
              \<and> files' (filePath r) = Some c))"
proof (intro conjI allI impI)
  show "\<And>e h m. cl_installer cl = Some ((e, h) # m) \<Longrightarrow>
      forge_flavor L b cl = Some (fill_placeholder (ld_install L) ''${version}'' b, Some e, Some h)"
    by (simp add: forge_flavor_def first_entry_def)
  show "\<And>e h m. cl_installer cl = None \<and> cl_client cl = Some ((e, h) # m) \<Longrightarrow>
      forge_flavor L b cl = Some (fill_placeholder (ld_client L) ''${version}'' b, Some e, Some h)"
    by (simp add: forge_flavor_def first_entry_def)
  show "\<And>e h m. cl_installer cl = None \<and> cl_client cl = None \<and> cl_universal cl = Some ((e, h) # m) \<Longrightarrow>
      forge_flavor L b cl = Some (fill_placeholder (ld_universal L) ''${version}'' b, Some e, Some h)"
    by (simp add: forge_flavor_def first_entry_def)
  show "cl_installer cl = Some [] \<Longrightarrow>
      forge_flavor L b cl = Some (fill_placeholder (ld_install L) ''${version}'' b, None, None)"
    by (simp add: forge_flavor_def first_entry_def)
  show "cl_installer cl = None \<and> cl_client cl = Some [] \<Longrightarrow>
      forge_flavor L b cl = Some (fill_placeholder (ld_client L) ''${version}'' b, None, None)"
    by (simp add: forge_flavor_def first_entry_def)
  show "cl_installer cl = None \<and> cl_client cl = None \<and> cl_universal cl = Some [] \<Longrightarrow>
      forge_flavor L b cl = Some (fill_placeholder (ld_universal L) ''${version}'' b, None, None)"
    by (simp add: forge_flavor_def first_entry_def)
  show "cl_installer cl = None \<and> cl_client cl = None \<and> cl_universal cl = None \<Longrightarrow>
      forge_flavor L b cl = None"
    by (simp add: forge_flavor_def)
  show "CHR ''$'' \<notin> set b \<Longrightarrow>
      fill_placeholder (ld_install L) ''${version}'' b = replaceAll (ld_install L) ''${version}'' b"
    by (simp add: fill_placeholder_def replace_global_literal)
  show "CHR ''$'' \<notin> set b \<Longrightarrow>
      fill_placeholder (ld_client L) ''${version}'' b = replaceAll (ld_client L) ''${version}'' b"
    by (simp add: fill_placeholder_def replace_global_literal)
  show "CHR ''$'' \<notin> set b \<Longrightarrow>
      fill_placeholder (ld_universal L) ''${version}'' b = replaceAll (ld_universal L) ''${version}'' b"
    by (simp add: fill_placeholder_def replace_global_literal)
next
  fix build chosen cl'
  assume "resolve_build env L opts = Inr (build, chosen)
        \<and> fetch_meta env (fill_placeholder (ld_meta L) ''${build}'' chosen) = Some cl'
        \<and> forge_flavor L chosen cl' = None"
  then show "downloadInstaller env L opts files = (Inl InvalidInstaller, files)"
    by (simp add: downloadInstaller_def)
next
  fix build chosen cl' forgeURL e h content
  assume a: "resolve_build env L opts = Inr (build, chosen)
        \<and> fetch_meta env (fill_placeholder (ld_meta L) ''${build}'' chosen) = Some cl'
        \<and> forge_flavor L chosen cl' = Some (forgeURL, e, h)
        \<and> plain_name (installer_fileName forgeURL e)
        \<and> (files (installerPath opts forgeURL e) = Some content
            \<or> (files (installerPath opts forgeURL e) = None
                \<and> fetch_file env (forgeURL @ ''.'' @ js_string e) = Body content))"
  then show "installerPath opts forgeURL e
              = fo_path opts @ ''/libraries/net/minecraftforge/installer/'' @ installer_fileName forgeURL e"
    by (simp add: installerPath_plain)
  {
    assume "Some (md5 env content) \<noteq> h"
    with a have "fetch_and_verify env opts forgeURL e h files
         = (Inl InvalidHash, files(installerPath opts forgeURL e := None))"
      by (intro fetch_and_verify_mismatch) auto
    with a show "downloadInstaller env L opts files
            = (Inl InvalidHash, files(installerPath opts forgeURL e := None))"
      by (simp add: downloadInstaller_def)
  }
  {
    assume "Some (md5 env content) = h"
    with a have "fetch_and_verify env opts forgeURL e h files
         = (Inr (installerPath opts forgeURL e), files(installerPath opts forgeURL e \<mapsto> content))"
      by (intro fetch_and_verify_match) auto
    with a show "downloadInstaller env L opts files
                 = (Inr \<lparr>filePath = installerPath opts forgeURL e, metaData = chosen, ext = e,
                         installer_id = ''forge-'' @ js_string build\<rparr>,
                    files(installerPath opts forgeURL e \<mapsto> content))"
      by (simp add: downloadInstaller_def)
  }
next
  fix files'
  assume run: "downloadInstaller env L opts files = (Inl InvalidHash, files')"
  then obtain forgeURL e h where "fetch_and_verify env opts forgeURL e h files = (Inl InvalidHash, files')"
    by (auto simp: downloadInstaller_def split: sum.splits option.splits prod.splits
        dest: resolve_build_errors)
  from fetch_and_verify_InvalidHash[OF this]
  have pl: "plain_name (installer_fileName forgeURL e)"
    and gone: "files' (installerPath opts forgeURL e) = None"
    and same: "\<forall>q. q \<noteq> installerPath opts forgeURL e \<longrightarrow> files' q = files q"
    by blast+
  have ip: "installerPath opts forgeURL e
      = fo_path opts @ ''/libraries/net/minecraftforge/installer/'' @ installer_fileName forgeURL e"
    by (rule installerPath_plain[OF pl])
  show "\<exists>n. plain_name n \<and> CHR ''/'' \<notin> set n
             \<and> files' (fo_path opts @ ''/libraries/net/minecraftforge/installer/'' @ n) = None
             \<and> (\<forall>q. q \<noteq> fo_path opts @ ''/libraries/net/minecraftforge/installer/'' @ n \<longrightarrow>
                    files' q = files q)"
    using pl gone same installer_fileName_no_slash[of forgeURL e] unfolding ip by blast
next
  fix r files'
  assume run: "downloadInstaller env L opts files = (Inr r, files')"
  then obtain build chosen cl' forgeURL e h p where
    st: "resolve_build env L opts = Inr (build, chosen)"
        "fetch_meta env (fill_placeholder (ld_meta L) ''${build}'' chosen) = Some cl'"
        "forge_flavor L chosen cl' = Some (forgeURL, e, h)"
        "fetch_and_verify env opts forgeURL e h files = (Inr p, files')"
        "filePath r = p"
    by (auto simp: downloadInstaller_def split: sum.splits option.splits prod.splits)
  from fetch_and_verify_Inr[OF st(4)] obtain c where
    c: "plain_name (installer_fileName forgeURL e)" "p = installerPath opts forgeURL e"
       "files' p = Some c" "h = Some (md5 env c)" by blast
  have "filePath r = fo_path opts @ ''/libraries/net/minecraftforge/installer/'' @ installer_fileName forgeURL e"
    using st(5) c(1,2) by (simp add: installerPath_plain)
  then show "\<exists>n build chosen cl' forgeURL e c.
              plain_name n \<and> CHR ''/'' \<notin> set n
              \<and> filePath r = fo_path opts @ ''/libraries/net/minecraftforge/installer/'' @ n
              \<and> resolve_build env L opts = Inr (build, chosen)
              \<and> fetch_meta env (fill_placeholder (ld_meta L) ''${build}'' chosen) = Some cl'
              \<and> forge_flavor L chosen cl' = Some (forgeURL, e, Some (md5 env c))
              \<and> files' (filePath r) = Some c"
    using st c installer_fileName_no_slash by blast
qed

theorem downloadInstaller_witness:
  "\<exists>files'. downloadInstaller
     \<lparr>fetch_metaData = (\<lambda>u. Some [(''1.20.1'', [''1.20.1-47.2.0''])]),
       fetch_promotions = (\<lambda>u. None),
       fetch_meta = (\<lambda>u. Some \<lparr>cl_installer = Some [(''jar'', ''0f1e''), (''zip'', ''ffff'')],
                                  cl_client = None, cl_universal = Some [(''jar'', ''77aa'')]\<rparr>),
       fetch_file = (\<lambda>u. Body ''damaged''),
       md5 = (\<lambda>c. if c = ''damaged'' then ''ffff'' else ''0f1e'')\<rparr>
     \<lparr>ld_metaData = ''https://f/maven-metadata.json'', ld_meta = ''https://f/${build}/meta.json'',
       ld_promotions = ''https://f/promotions_slim.json'',
       ld_install = ''https://m/${version}/forge-${version}-installer'',
       ld_universal = ''https://m/${version}/forge-${version}-universal'',
       ld_client = ''https://m/${version}/forge-${version}-client''\<rparr>
     \<lparr>fo_path = ''/r'', loader_version = ''1.20.1'', loader_build = ''1.20.1-47.2.0''\<rparr> Map.empty = (Inl InvalidHash, files')
    \<and> files' ''/r/libraries/net/minecraftforge/installer/forge-1.20.1-47.2.0-installer.jar'' = None"
proof -
  let ?env = "\<lparr>fetch_metaData = (\<lambda>u. Some [(''1.20.1'', [''1.20.1-47.2.0''])]),
       fetch_promotions = (\<lambda>u. None),
       fetch_meta = (\<lambda>u. Some \<lparr>cl_installer = Some [(''jar'', ''0f1e''), (''zip'', ''ffff'')],
                                  cl_client = None, cl_universal = Some [(''jar'', ''77aa'')]\<rparr>),
       fetch_file = (\<lambda>u. Body ''damaged''),
       md5 = (\<lambda>c. if c = ''damaged'' then ''ffff'' else ''0f1e'')\<rparr>"
  let ?L = "\<lparr>ld_metaData = ''https://f/maven-metadata.json'', ld_meta = ''https://f/${build}/meta.json'',
       ld_promotions = ''https://f/promotions_slim.json'',
       ld_install = ''https://m/${version}/forge-${version}-installer'',
       ld_universal = ''https://m/${version}/forge-${version}-universal'',
       ld_client = ''https://m/${version}/forge-${version}-client''\<rparr>"
  let ?opts = "\<lparr>fo_path = ''/r'', loader_version = ''1.20.1'', loader_build = ''1.20.1-47.2.0''\<rparr>"
  let ?cl = "\<lparr>cl_installer = Some [(''jar'', ''0f1e''), (''zip'', ''ffff'')], cl_client = None,
                                  cl_universal = Some [(''jar'', ''77aa'')]\<rparr>"
  let ?url = "''https://m/1.20.1-47.2.0/forge-1.20.1-47.2.0-installer''"
  have rb: "resolve_build ?env ?L ?opts = Inr (Some ''1.20.1-47.2.0'', ''1.20.1-47.2.0'')"
    by (simp add: resolve_build_def)
  have fp: "fill_placeholder (ld_install ?L) ''${version}'' ''1.20.1-47.2.0'' = ?url"
    by (simp add: fill_placeholder_def)
  have fn: "installer_fileName ?url (Some ''jar'') = ''forge-1.20.1-47.2.0-installer.jar''"
    by (simp add: installer_fileName_def js_string_def js_pop_def)
  have pl: "plain_name (installer_fileName ?url (Some ''jar''))"
    unfolding fn by (simp add: plain_name_def)
  note inst = downloadInstaller_checks_installer[where cl = ?cl and L = ?L and b = "''1.20.1-47.2.0''"
      and env = ?env and opts = ?opts and files = Map.empty]
  have ci: "cl_installer ?cl = Some ((''jar'', ''0f1e'') # [(''zip'', ''ffff'')])"
    by simp
  from inst[THEN conjunct1, rule_format, OF ci]
  have fl: "forge_flavor ?L ''1.20.1-47.2.0'' ?cl = Some (?url, Some ''jar'', Some ''0f1e'')"
    unfolding fp .
  have fm: "fetch_meta ?env (fill_placeholder (ld_meta ?L) ''${build}'' ''1.20.1-47.2.0'') = Some ?cl"
    by simp
  have ip: "installerPath ?opts ?url (Some ''jar'')
       = ''/r/libraries/net/minecraftforge/installer/forge-1.20.1-47.2.0-installer.jar''"
    using pl fn by (simp add: installerPath_def forgeFolder_def)
  have ff: "Map.empty (installerPath ?opts ?url (Some ''jar'')) = Some ''damaged''
            \<or> (Map.empty (installerPath ?opts ?url (Some ''jar'')) = None
                \<and> fetch_file ?env (?url @ ''.'' @ js_string (Some ''jar'')) = Body ''damaged'')"
    by simp
  have mm: "Some (md5 ?env ''damaged'') \<noteq> Some ''0f1e''"
    by simp
  note c10 = inst[THEN conjunct2, THEN conjunct2, THEN conjunct2, THEN conjunct2, THEN conjunct2,
      THEN conjunct2, THEN conjunct2, THEN conjunct2, THEN conjunct2, THEN conjunct1, rule_format]
  have "downloadInstaller ?env ?L ?opts Map.empty
      = (Inl InvalidHash, Map.empty(installerPath ?opts ?url (Some ''jar'') := None))"
    using c10[where build = "Some ''1.20.1-47.2.0''" and chosen = "''1.20.1-47.2.0''" and cl' = ?cl
        and forgeURL = ?url and e = "Some ''jar''" and content = "''damaged''" and h = "Some ''0f1e''"]
      rb fm fl pl ff mm by blast
  then show ?thesis unfolding ip by simp
qed

subsection \<open>Batches of downloads\<close>

lemma receive_fields [simp]:
  "completed (receive cs st) = completed st"
  "queued (receive cs st) = queued st"
  "in_flight (receive cs st) = in_flight st"
  by (induction cs arbitrary: st) auto

lemma receive_errors [simp]:
  "DlError i \<in> set (dl_events (receive cs st)) \<longleftrightarrow> DlError i \<in> set (dl_events st)"
  by (induction cs arbitrary: st) auto

lemma downloadNext_iterate:
  "((downloadNext n) ^^ k) \<lparr>completed = 0, downloaded = 0, queued = 0, in_flight = [], dl_events = []\<rparr>
   = \<lparr>completed = 0, downloaded = 0, queued = min k n, in_flight = [0..<min k n], dl_events = []\<rparr>"
proof (induction k)
  case 0
  then show ?case by simp
next
  case (Suc k)
  show ?case
  proof (cases "k < n")
    case True
    then have "min k n = k" "min (Suc k) n = Suc k" by auto
    then show ?thesis using Suc True by (simp add: downloadNext_def)
  next
    case False
    then have "min k n = n" "min (Suc k) n = n" by auto
    then show ?thesis using Suc False by (simp add: downloadNext_def)
  qed
qed

lemma start_downloads_state:
  assumes "1 \<le> limit"
  shows "start_downloads n limit
     = \<lparr>completed = 0, downloaded = 0, queued = min (nat limit) n,
        in_flight = [0..<min (nat limit) n], dl_events = []\<rparr>"
proof -
  have "min (nat (effective_limit limit n)) n = min (nat limit) n"
    using assms by (auto simp: effective_limit_def)
  then show ?thesis
    unfolding start_downloads_def downloadNext_iterate by simp
qed

lemma start_downloads_inv:
  assumes "1 \<le> limit"
  shows "dl_inv files (min (nat limit) (length files)) (start_downloads (length files) limit)"
  unfolding start_downloads_state[OF assms] dl_inv_def by auto

lemma settle_shape:
  assumes "i < length files"
  shows "\<exists>evs d. (\<forall>j. DlError j \<in> set evs \<longleftrightarrow> (DlError j \<in> set (dl_events st) \<or> (j = i \<and> fails (files ! i))))
     \<and> settle True files st i =
        downloadNext (length files) (st\<lparr>in_flight := removeAll i (in_flight st), downloaded := d,
                           dl_events := evs, completed := completed st + 1\<rparr>)"
proof -
  have idx: "js_index files i = Some (files ! i)" using assms by (simp add: js_index_def)
  show ?thesis
  proof (cases "files ! i")
    case (Succeeds chunks)
    let ?st2 = "receive chunks (st\<lparr>in_flight := removeAll i (in_flight st)\<rparr>)"
    have "settle True files st i = downloadNext (length files) (?st2\<lparr>completed := completed ?st2 + 1\<rparr>)"
      using Succeeds idx by (simp add: settle_def Let_def)
    moreover have "?st2\<lparr>completed := completed ?st2 + 1\<rparr>
       = st\<lparr>in_flight := removeAll i (in_flight st), downloaded := downloaded ?st2,
            dl_events := dl_events ?st2, completed := completed st + 1\<rparr>"
      by (rule dl_state.equality) simp_all
    moreover have "\<forall>j. DlError j \<in> set (dl_events ?st2) \<longleftrightarrow> (DlError j \<in> set (dl_events st) \<or> (j = i \<and> fails (files ! i)))"
      using Succeeds by (simp add: fails_def)
    ultimately show ?thesis by metis
  next
    case (StreamFails chunks)
    let ?st2 = "receive chunks (st\<lparr>in_flight := removeAll i (in_flight st)\<rparr>)"
    have "settle True files st i = downloadNext (length files) (?st2\<lparr>dl_events := dl_events ?st2 @ [DlError i], completed := completed ?st2 + 1\<rparr>)"
      using StreamFails idx by (simp add: settle_def Let_def)
    moreover have "?st2\<lparr>dl_events := dl_events ?st2 @ [DlError i], completed := completed ?st2 + 1\<rparr>
       = st\<lparr>in_flight := removeAll i (in_flight st), downloaded := downloaded ?st2,
            dl_events := dl_events ?st2 @ [DlError i], completed := completed st + 1\<rparr>"
      by (rule dl_state.equality) simp_all
    moreover have "\<forall>j. DlError j \<in> set (dl_events ?st2 @ [DlError i]) \<longleftrightarrow> (DlError j \<in> set (dl_events st) \<or> (j = i \<and> fails (files ! i)))"
      using StreamFails by (auto simp: fails_def)
    ultimately show ?thesis by metis
  next
    case FetchFails
    have "settle True files st i = downloadNext (length files) (st\<lparr>in_flight := removeAll i (in_flight st), downloaded := downloaded st,
            dl_events := dl_events st @ [DlError i], completed := completed st + 1\<rparr>)"
      using FetchFails idx by (simp add: settle_def Let_def)
    moreover have "\<forall>j. DlError j \<in> set (dl_events st @ [DlError i]) \<longleftrightarrow> (DlError j \<in> set (dl_events st) \<or> (j = i \<and> fails (files ! i)))"
      using FetchFails by (auto simp: fails_def)
    ultimately show ?thesis by metis
  qed
qed

lemma settle_step:
  assumes inv: "dl_inv files L st" and i: "i \<in> set (in_flight st)"
  shows "dl_inv files L (settle True files st i)
         \<and> completed (settle True files st i) = completed st + 1"
proof -
  let ?n = "length files"
  from inv i have len: "length (removeAll i (in_flight st)) + 1 = length (in_flight st)"
    by (simp add: dl_inv_def distinct_remove1_removeAll[symmetric] length_remove1)
       (metis One_nat_def Suc_pred length_pos_if_in_set)
  from inv i have lt: "i < queued st" by (auto simp: dl_inv_def)
  have c1: "completed st + length (in_flight st) = queued st" "queued st \<le> ?n"
    "queued st < ?n \<longrightarrow> length (in_flight st) = L" "distinct (in_flight st)"
    "\<forall>k\<in>set (in_flight st). k < queued st"
    "\<forall>k. DlError k \<in> set (dl_events st) \<longleftrightarrow> k < queued st \<and> k \<notin> set (in_flight st) \<and> fails (files ! k)"
    using inv by (auto simp: dl_inv_def)
  from lt c1(2) have "i < ?n" by simp
  then obtain evs d where evs: "\<forall>j. DlError j \<in> set evs \<longleftrightarrow> (DlError j \<in> set (dl_events st) \<or> (j = i \<and> fails (files ! i)))"
    and eq: "settle True files st i =
        downloadNext ?n (st\<lparr>in_flight := removeAll i (in_flight st), downloaded := d,
                           dl_events := evs, completed := completed st + 1\<rparr>)"
    using settle_shape by blast
  let ?m = "st\<lparr>in_flight := removeAll i (in_flight st), downloaded := d,
                           dl_events := evs, completed := completed st + 1\<rparr>"
  have dr: "distinct (removeAll i (in_flight st))"
    using c1(4) by (rule distinct_removeAll)
  show ?thesis
  proof (cases "queued st \<ge> ?n")
    case True
    then have "settle True files st i = ?m" using eq by (simp add: downloadNext_def)
    moreover have "dl_inv files L ?m"
      unfolding dl_inv_def using c1 len lt evs True i dr by auto
    ultimately show ?thesis by simp
  next
    case False
    then have s: "settle True files st i = ?m\<lparr>in_flight := removeAll i (in_flight st) @ [queued st], queued := queued st + 1\<rparr>"
      using eq by (simp add: downloadNext_def)
    have "dl_inv files L (?m\<lparr>in_flight := removeAll i (in_flight st) @ [queued st], queued := queued st + 1\<rparr>)"
      unfolding dl_inv_def using c1 len lt evs False i dr
      by (auto simp: less_Suc_eq)
    with s show ?thesis by simp
  qed
qed

lemma dl_inv_progress:
  assumes "dl_inv files L st" "completed st < length files" "0 < length files \<longrightarrow> 1 \<le> L"
  shows "in_flight st \<noteq> []"
  using assms by (cases "queued st < length files") (auto simp: dl_inv_def)

lemma dl_inv_bound: "dl_inv files L st \<Longrightarrow> completed st \<le> length files"
  by (auto simp: dl_inv_def)

lemma run_downloads_completed:
  assumes "dl_inv files L st" "0 < length files \<longrightarrow> 1 \<le> L"
  shows "dl_inv files L (run_downloads True files st sched)
         \<and> completed (run_downloads True files st sched) = min (completed st + length sched) (length files)"
  using assms(1)
proof (induction sched arbitrary: st)
  case Nil
  then show ?case using dl_inv_bound by fastforce
next
  case (Cons k ks)
  show ?case
  proof (cases "in_flight st = []")
    case True
    then have "completed st = length files"
      using dl_inv_progress[OF Cons.prems _ assms(2)] dl_inv_bound[OF Cons.prems] by force
    then show ?thesis using True Cons.prems by simp
  next
    case False
    let ?i = "in_flight st ! (k mod length (in_flight st))"
    have mem: "?i \<in> set (in_flight st)" using False by simp
    from settle_step[OF Cons.prems mem]
    have inv': "dl_inv files L (settle True files st ?i)"
      and c': "completed (settle True files st ?i) = completed st + 1" by simp_all
    from Cons.IH[OF inv'] False show ?thesis by (simp add: c')
  qed
qed

text \<open>
  With a pool size of at least one and a listener for \<open>error\<close>, whatever the transfers
  do and in whatever order they end: each transfer that ends, by success, stream
  error or failed or aborted request, is counted, so after \<open>k\<close> of the \<open>n\<close> transfers have
  ended \<open>completed\<close> is \<open>k\<close>; as long as some are left the pool is not empty and the batch
  goes on, not yet resolved; once all have ended the batch resolves, nothing is in
  flight, and the \<open>error\<close> events emitted are exactly those of the transfers that failed.
\<close>

lemma downloadFileMultiple_completes:
  assumes "1 \<le> limit" and "listener"
  shows "completed (run_downloads listener files (start_downloads (length files) limit) sched)
           = min (length sched) (length files)
    \<and> (length sched < length files \<longrightarrow>
          in_flight (run_downloads listener files (start_downloads (length files) limit) sched) \<noteq> []
          \<and> \<not> resolved (length files)
                 (run_downloads listener files (start_downloads (length files) limit) sched))
    \<and> (length files \<le> length sched \<longrightarrow>
          resolved (length files)
            (run_downloads listener files (start_downloads (length files) limit) sched)
          \<and> in_flight (run_downloads listener files (start_downloads (length files) limit) sched) = []
          \<and> (\<forall>i. DlError i \<in> set (dl_events
                     (run_downloads listener files (start_downloads (length files) limit) sched))
                  \<longleftrightarrow> i < length files \<and> fails (files ! i)))"
proof -
  let ?n = "length files"
  let ?L = "min (nat limit) ?n"
  let ?f = "run_downloads True files (start_downloads ?n limit) sched"
  have l: "listener = True" using assms(2) by simp
  have L: "0 < ?n \<longrightarrow> 1 \<le> ?L" using assms(1) by (cases files) auto
  have c0: "completed (start_downloads ?n limit) = 0"
    by (simp add: start_downloads_state[OF assms(1)])
  from run_downloads_completed[OF start_downloads_inv[OF assms(1)] L, of sched]
  have inv: "dl_inv files ?L ?f" and c: "completed ?f = min (length sched) ?n"
    by (simp_all add: c0)
  have short: "length sched < ?n \<Longrightarrow> in_flight ?f \<noteq> [] \<and> \<not> resolved ?n ?f"
    using dl_inv_progress[OF inv _ L] c by (simp add: resolved_def)
  have long: "?n \<le> length sched \<Longrightarrow> resolved ?n ?f \<and> in_flight ?f = []
      \<and> (\<forall>i. DlError i \<in> set (dl_events ?f) \<longleftrightarrow> i < ?n \<and> fails (files ! i))"
  proof -
    assume "?n \<le> length sched"
    then have cn: "completed ?f = ?n" using c by simp
    from inv have "completed ?f + length (in_flight ?f) = queued ?f" "queued ?f \<le> ?n"
      by (simp_all add: dl_inv_def)
    with cn have q: "queued ?f = ?n" and "length (in_flight ?f) = 0" by linarith+
    then have e: "in_flight ?f = []" by simp
    from inv q e have "\<forall>i. DlError i \<in> set (dl_events ?f) \<longleftrightarrow> i < ?n \<and> fails (files ! i)"
      by (simp add: dl_inv_def)
    with cn e show ?thesis by (simp add: resolved_def)
  qed
  from c short long show ?thesis unfolding l by blast
qed

text \<open>
  C7 on a downloader without a listener for \<open>error\<close>, as the loaders create it: the
  request of the only file of the batch fails, \<open>emit\<close> throws before the transfer is
  counted, and the batch never resolves, with nothing left in flight.
\<close>

theorem downloadFileMultiple_stalls_without_listener:
  "\<not> resolved (length [FetchFails])
       (run_downloads False [FetchFails] (start_downloads (length [FetchFails]) 5) [0])
   \<and> in_flight (run_downloads False [FetchFails] (start_downloads (length [FetchFails]) 5) [0]) = []
   \<and> dl_events (run_downloads False [FetchFails] (start_downloads (length [FetchFails]) 5) [0]) = []"
  by (simp add: start_downloads_def effective_limit_def downloadNext_def settle_def resolved_def
      js_index_def)

subsection \<open>The download pool size\<close>

lemma start_loop_finite:
  "start_loop n (Finite x) i st = Some (((downloadNext n) ^^ (nat \<lceil>x\<rceil> - i)) st)"
proof (induction "nat \<lceil>x\<rceil> - i" arbitrary: i st)
  case 0
  then have "\<not> real i < x" by linarith
  then show ?case using 0 by (subst start_loop.simps) simp
next
  case (Suc k)
  then have lt: "real i < x" by linarith
  from Suc have k: "k = nat \<lceil>x\<rceil> - Suc i" by linarith
  have "start_loop n (Finite x) i st = start_loop n (Finite x) (Suc i) (downloadNext n st)"
    using lt by (subst start_loop.simps) simp
  also have "\<dots> = Some (((downloadNext n) ^^ k) (downloadNext n st))"
    using Suc.hyps(1)[OF k] k by simp
  finally show ?case using Suc.hyps(2)[symmetric] by (simp add: funpow_swap1)
qed

lemma start_loop_no_iteration:
  "\<not> js_less (Finite 0) limit \<Longrightarrow> start_loop n limit 0 st = Some st"
  by (subst start_loop.simps) simp

lemma limit_for_files_not_PosInfinity: "limit_for_files v n \<noteq> PosInfinity"
  by (auto simp: limit_for_files_def Let_def split: pool_size.splits js_number.splits)

lemma start_batch_returns:
  assumes "v \<noteq> Uncoercible"
  shows "\<exists>k. start_batch n v = Inr (Some (((downloadNext n) ^^ k) initial_dl_state))"
proof (cases "limit_for_files v n")
  case (Finite x)
  then show ?thesis using assms by (auto simp: start_batch_def start_loop_finite)
next
  case NaN
  then have "start_batch n v = Inr (Some (((downloadNext n) ^^ 0) initial_dl_state))"
    using assms by (simp add: start_batch_def start_loop_no_iteration)
  then show ?thesis by blast
next
  case PosInfinity
  then show ?thesis using limit_for_files_not_PosInfinity by blast
next
  case NegInfinity
  then have "start_batch n v = Inr (Some (((downloadNext n) ^^ 0) initial_dl_state))"
    using assms by (simp add: start_batch_def start_loop_no_iteration)
  then show ?thesis by blast
qed

lemma start_batch_integer:
  "start_batch n (Numeric (Finite (real_of_int k))) = Inr (Some (start_downloads n k))"
proof -
  have "nat \<lceil>real n\<rceil> = n" by simp
  then show ?thesis
    by (auto simp: start_batch_def limit_for_files_def start_loop_finite start_downloads_def
        effective_limit_def initial_dl_state_def)
qed

lemma run_downloads_idle: "in_flight st = [] \<Longrightarrow> run_downloads listener files st sched = st"
  by (cases sched) auto

text \<open>
  For every number but NaN a launch with an authenticator is not rejected and hands a
  value between 1 and 30 to the pipeline: a value below 1 becomes 1, a value above 30
  becomes 30, a value in range is kept. The downloader can only lower it further to
  the (positive) number of files, so the number of transfers it starts is between 1 and
  30. With \<open>undefined\<close> the option stays \<open>undefined\<close> and the downloader falls back on one
  transfer at a time.
\<close>

lemma Launch_clamps_numbers:
  assumes "authenticator opt \<noteq> None" "downloadFileMultiple opt = Numeric x" "x \<noteq> NaN"
  shows "\<exists>y. Launch_options opt = Inr (opt\<lparr>downloadFileMultiple := Numeric (Finite y)\<rparr>)
     \<and> 1 \<le> y \<and> y \<le> 30
     \<and> (js_less x (Finite 1) \<longrightarrow> y = 1)
     \<and> (js_less (Finite 30) x \<longrightarrow> y = 30)
     \<and> (\<not> js_less x (Finite 1) \<and> \<not> js_less (Finite 30) x \<longrightarrow> x = Finite y)
     \<and> (\<forall>n. 0 < n \<longrightarrow>
          (\<exists>k. start_batch n (Numeric (Finite y)) = Inr (Some (((downloadNext n) ^^ k) initial_dl_state))
               \<and> 1 \<le> k \<and> k \<le> 30 \<and> k \<le> n))"
proof -
  have count: "\<exists>k. start_batch n (Numeric (Finite y)) = Inr (Some (((downloadNext n) ^^ k) initial_dl_state))
               \<and> 1 \<le> k \<and> k \<le> 30 \<and> k \<le> n" if "1 \<le> y" "y \<le> 30" "0 < n" for y n
  proof (cases "real n < y")
    case True
    then have "start_batch n (Numeric (Finite y)) = Inr (Some (((downloadNext n) ^^ n) initial_dl_state))"
      by (simp add: start_batch_def limit_for_files_def start_loop_finite)
    moreover have "n \<le> 30" using True that by linarith
    ultimately show ?thesis using that by auto
  next
    case False
    then have "start_batch n (Numeric (Finite y)) = Inr (Some (((downloadNext n) ^^ (nat \<lceil>y\<rceil>)) initial_dl_state))"
      by (simp add: start_batch_def limit_for_files_def start_loop_finite)
    moreover have "1 \<le> nat \<lceil>y\<rceil>" "nat \<lceil>y\<rceil> \<le> 30" "nat \<lceil>y\<rceil> \<le> n"
      using that False by linarith+
    ultimately show ?thesis by auto
  qed
  show ?thesis
  proof (cases x)
    case (Finite z)
    consider "z < 1" | "1 \<le> z" "z \<le> 30" | "30 < z" by linarith
    then show ?thesis
    proof cases
      case 1
      then show ?thesis using assms Finite count[of 1]
        by (intro exI[of _ 1]) (auto simp: Launch_options_def pool_less_def pool_greater_def)
    next
      case 2
      then have "opt\<lparr>downloadFileMultiple := Numeric (Finite z)\<rparr> = opt" using assms Finite by simp
      then show ?thesis using assms Finite count[of z] 2
        by (intro exI[of _ z]) (auto simp: Launch_options_def pool_less_def pool_greater_def)
    next
      case 3
      then show ?thesis using assms Finite count[of 30]
        by (intro exI[of _ 30]) (auto simp: Launch_options_def pool_less_def pool_greater_def)
    qed
  next
    case NaN
    then show ?thesis using assms by simp
  next
    case PosInfinity
    then show ?thesis using assms count[of 30]
      by (intro exI[of _ 30]) (auto simp: Launch_options_def pool_less_def pool_greater_def)
  next
    case NegInfinity
    then show ?thesis using assms count[of 1]
      by (intro exI[of _ 1]) (auto simp: Launch_options_def pool_less_def pool_greater_def)
  qed
qed

lemma Launch_keeps_undefined:
  assumes "authenticator opt \<noteq> None" "downloadFileMultiple opt = Undefined"
  shows "Launch_options opt = Inr opt
     \<and> (\<forall>n. 0 < n \<longrightarrow> start_batch n Undefined = Inr (Some (downloadNext n initial_dl_state)))"
  using assms
  by (auto simp: Launch_options_def pool_less_def pool_greater_def start_batch_def
      limit_for_files_def start_loop_finite)

text \<open>
  C10, on the value NaN (a value that coerces to NaN, such as a text that is no
  numeral, goes the same way): both guards of \<open>Launch.Launch\<close> compare false, so the
  option is handed on as it is; \<open>downloadFileMultiple\<close> then starts no transfer at all,
  nothing is ever in flight, and a batch of three files is never resolved.
\<close>

theorem Launch_leaves_NaN_unclamped:
  "Launch_options \<lparr>opt_path = ''/home/u/.minecraft'', opt_instance = Some ''main'',
            authenticator = Some \<lparr>cred_name = ''Steve'', uuid = None, access_token = None,
                                   client_token = None, xboxAccount_xuid = None\<rparr>,
            downloadFileMultiple = Numeric NaN\<rparr>
     = Inr \<lparr>opt_path = ''/home/u/.minecraft'', opt_instance = Some ''main'',
            authenticator = Some \<lparr>cred_name = ''Steve'', uuid = None, access_token = None,
                                   client_token = None, xboxAccount_xuid = None\<rparr>,
            downloadFileMultiple = Numeric NaN\<rparr>
   \<and> start_batch 3 (Numeric NaN) = Inr (Some initial_dl_state)
   \<and> in_flight initial_dl_state = []
   \<and> (\<forall>sched. run_downloads True [Succeeds [10], Succeeds [20], Succeeds [30]] initial_dl_state sched
          = initial_dl_state)
   \<and> \<not> resolved 3 initial_dl_state"
  by (simp add: Launch_options_def pool_less_def pool_greater_def start_batch_def
      limit_for_files_def start_loop_no_iteration run_downloads_idle initial_dl_state_def
      resolved_def)

subsection \<open>Speed and remaining time\<close>

lemma last_five_short: "length xs \<le> 5 \<Longrightarrow> last_five xs = xs"
  by (simp add: last_five_def)

lemma length_last_five: "length (last_five xs) = min 5 (length xs)"
  by (auto simp: last_five_def)

lemma last_five_append: "last_five (last_five xs @ ys) = last_five (xs @ ys)"
proof (cases "length xs \<le> 5")
  case True
  then show ?thesis by (simp add: last_five_short)
next
  case False
  then have "length xs - 5 + length ys = length xs + length ys - 5" by simp
  with False show ?thesis by (simp add: last_five_def add.commute)
qed

lemma shift_push:
  assumes "length xs \<le> 5"
  shows "(if length xs \<ge> 5 then tl xs else xs) @ [x] = last_five (xs @ [x])"
  using assms by (cases xs) (auto simp: last_five_def)

lemma tick_fields:
  assumes "length (speeds st) \<le> 5"
  shows "speeds (tick ar T (now1, now2, dl) st)
           = last_five (speeds st @ [divide_by ar (sub ar dl (agg_before st))
                                      (divide_by ar (sub ar now1 (agg_start st)) (thousand ar))])"
    and "agg_start (tick ar T (now1, now2, dl) st) = now2"
    and "agg_before (tick ar T (now1, now2, dl) st) = dl"
    and "agg_events (tick ar T (now1, now2, dl) st)
           = agg_events st @ [Speed (average ar (speeds (tick ar T (now1, now2, dl) st))),
                              Estimated (divide_by ar (sub ar T dl)
                                 (average ar (speeds (tick ar T (now1, now2, dl) st))))]"
  using shift_push[OF assms] by (simp_all add: tick_def Let_def)

lemma ticks_speeds:
  assumes "length (speeds st) \<le> 5"
  shows "speeds (ticks ar T st inps)
         = last_five (speeds st @ samples ar (agg_start st) (agg_before st) inps)"
  using assms
proof (induction inps arbitrary: st)
  case Nil
  then show ?case by (simp add: last_five_short)
next
  case (Cons inp inps)
  obtain now1 now2 dl where inp: "inp = (now1, now2, dl)" by (cases inp)
  let ?s = "divide_by ar (sub ar dl (agg_before st))
              (divide_by ar (sub ar now1 (agg_start st)) (thousand ar))"
  let ?st = "tick ar T (now1, now2, dl) st"
  have len: "length (speeds ?st) \<le> 5"
    by (simp add: tick_fields(1)[OF Cons.prems] length_last_five)
  have "speeds (ticks ar T st (inp # inps)) = last_five (speeds ?st @ samples ar now2 dl inps)"
    using Cons.IH[OF len] by (simp add: inp tick_fields(2,3)[OF Cons.prems])
  also have "\<dots> = last_five ((speeds st @ [?s]) @ samples ar now2 dl inps)"
    by (simp only: tick_fields(1)[OF Cons.prems] last_five_append)
  finally show ?case by (simp add: inp)
qed

lemma ticks_append: "ticks ar T st (xs @ ys) = ticks ar T (ticks ar T st xs) ys"
  by (induction xs arbitrary: st) auto

lemma ticks_length: "length (speeds st) \<le> 5 \<Longrightarrow> length (speeds (ticks ar T st inps)) \<le> 5"
  by (simp add: ticks_speeds length_last_five)

lemma foldl_add_real: "foldl (+) (a::real) xs = a + sum_list xs"
  by (induction xs arbitrary: a) auto

lemma samples_length: "length (samples ar t b inps) = length inps"
  by (induction inps arbitrary: t b) auto

text \<open>
  C8. At every run of the interval callback the window \<open>speeds\<close> holds the last five
  byte-rate samples, or all of them while there are fewer than five; the \<open>speed\<close> event
  carries their sum, taken from 0 in the order of the window, divided by their number,
  and the \<open>estimated\<close> event carries the declared total less the bytes downloaded so far,
  divided by that speed. This holds in any arithmetic; in that of the real numbers the
  speed is the arithmetic mean of the window: the sum of its samples divided by their
  number.
\<close>

theorem aggregator_speed_and_estimate:
  "speeds (ticks ar T (agg_init ar t0) (pre @ [(now1, now2, dl)]))
     = last_five (samples ar t0 (zero ar) (pre @ [(now1, now2, dl)]))
   \<and> length (last_five (samples ar t0 (zero ar) (pre @ [(now1, now2, dl)]))) = min 5 (length pre + 1)
   \<and> agg_events (ticks ar T (agg_init ar t0) (pre @ [(now1, now2, dl)]))
     = agg_events (ticks ar T (agg_init ar t0) pre)
       @ [Speed (divide_by ar
                   (foldl (add ar) (zero ar) (last_five (samples ar t0 (zero ar) (pre @ [(now1, now2, dl)]))))
                   (number_of ar (length (last_five (samples ar t0 (zero ar) (pre @ [(now1, now2, dl)])))))),
          Estimated (divide_by ar (sub ar T dl)
                (divide_by ar
                   (foldl (add ar) (zero ar) (last_five (samples ar t0 (zero ar) (pre @ [(now1, now2, dl)]))))
                   (number_of ar (length (last_five (samples ar t0 (zero ar) (pre @ [(now1, now2, dl)])))))))]
   \<and> agg_events (ticks exact_arith E (agg_init exact_arith estart) (inps @ [(ea, eb, d)]))
     = agg_events (ticks exact_arith E (agg_init exact_arith estart) inps)
       @ [Speed (sum_list (last_five (samples exact_arith estart 0 (inps @ [(ea, eb, d)])))
                 / real (min 5 (length inps + 1))),
          Estimated ((E - d) / (sum_list (last_five (samples exact_arith estart 0 (inps @ [(ea, eb, d)])))
                                / real (min 5 (length inps + 1))))]"
proof -
  have len0: "length (speeds (agg_init ar t0)) \<le> 5" for ar :: "'b arith" and t0
    by (simp add: agg_init_def)
  have sp: "speeds (ticks ar T (agg_init ar t0) (pre @ [(now1, now2, dl)]))
     = last_five (samples ar t0 (zero ar) (pre @ [(now1, now2, dl)]))"
    for ar :: "'b arith" and T t0 pre now1 now2 dl
    using ticks_speeds[OF len0, of ar T] by (simp add: agg_init_def)
  have ev: "agg_events (ticks ar T (agg_init ar t0) (pre @ [(now1, now2, dl)]))
     = agg_events (ticks ar T (agg_init ar t0) pre)
       @ [Speed (average ar (speeds (ticks ar T (agg_init ar t0) (pre @ [(now1, now2, dl)])))),
          Estimated (divide_by ar (sub ar T dl)
             (average ar (speeds (ticks ar T (agg_init ar t0) (pre @ [(now1, now2, dl)])))))]"
    for ar :: "'b arith" and T t0 pre now1 now2 dl
    using tick_fields(4)[OF ticks_length[OF len0]]
    by (simp add: ticks_append)
  have ex: "zero exact_arith = 0" "sub exact_arith E d = E - d"
    "divide_by exact_arith x y = x / y" "number_of exact_arith k = real k"
    "foldl (add exact_arith) 0 xs = sum_list xs" for x y k xs
    by (simp_all add: exact_arith_def foldl_add_real)
  show ?thesis
    unfolding ev sp average_def ex
    by (simp add: length_last_five samples_length)
qed

theorem aggregator_witness:
  "drop 10 (agg_events (ticks exact_arith 37000 (agg_init exact_arith 0)
      [(500, 500, 1000), (1000, 1000, 3000), (1500, 1500, 6000), (2000, 2000, 10000),
       (2500, 2500, 15000), (3000, 3000, 21000)]))
   = [Speed 8000, Estimated 2]
   \<and> last_five (samples exact_arith 0 0
      [(500, 500, 1000), (1000, 1000, 3000), (1500, 1500, 6000), (2000, 2000, 10000),
       (2500, 2500, 15000), (3000, 3000, 21000)]) = [4000, 6000, 8000, 10000, 12000]"
  using aggregator_speed_and_estimate[where ar = exact_arith and E = 37000 and estart = 0
      and inps = "[(500, 500, 1000), (1000, 1000, 3000), (1500, 1500, 6000), (2000, 2000, 10000),
                   (2500, 2500, 15000)]" and ea = 3000 and eb = 3000 and d = 21000]
  by (simp add: agg_init_def tick_def average_def last_five_def exact_arith_def)

subsection \<open>Staging the mods\<close>

text \<open>
  The name \<open>setupMods\<close> gives a file contains neither \<open>?\<close> nor \<open>/\<close>. It is the last
  segment of the URL's path, query stripped, whenever the query string contains no \<open>/\<close>.
  Staging is idempotent: after a pass that has run to its end, a second pass over the
  same URLs, whatever the network answers then, finds every name present and leaves
  the files as they are.
\<close>

lemma split_on_no_sep: "c \<notin> set q \<Longrightarrow> split_on c q = [q]"
  by (induction q) auto

lemma split_on_append_tail:
  "c \<notin> set q \<Longrightarrow>
   split_on c (u @ q) = butlast (split_on c u) @ [last (split_on c u) @ q]"
proof (induction u)
  case Nil
  then show ?case by (simp add: split_on_no_sep)
next
  case (Cons x u)
  obtain w ws where S: "split_on c u = w # ws"
    using split_on_nonempty[of c u] by (cases "split_on c u") auto
  show ?case
  proof (cases "x = c")
    case True
    then show ?thesis using Cons S by simp
  next
    case False
    then show ?thesis using Cons S by (cases ws) simp_all
  qed
qed

lemma last_split_on_append:
  "c \<notin> set q \<Longrightarrow> last (split_on c (u @ q)) = last (split_on c u) @ q"
  by (simp add: split_on_append_tail)

lemma last_split_on_subset: "set (last (split_on c u)) \<subseteq> set u"
  by (induction u) (auto simp: split_on_nonempty split: list.splits)

lemma mod_fileName_eq: "mod_fileName url = takeWhile (\<lambda>x. x \<noteq> CHR ''?'') (last (split_on CHR ''/'' url))"
  unfolding mod_fileName_def split_on_head
  by (simp add: js_pop_def js_string_def split_on_nonempty)

lemma mod_fileName_plain: "CHR ''?'' \<notin> set (mod_fileName url) \<and> CHR ''/'' \<notin> set (mod_fileName url)"
proof -
  have "CHR ''/'' \<notin> set (last (split_on CHR ''/'' url))"
    by (induction url) (auto simp: split_on_nonempty split: list.splits)
  then have "CHR ''/'' \<notin> set (takeWhile (\<lambda>x. x \<noteq> CHR ''?'') (last (split_on CHR ''/'' url)))"
    using set_takeWhileD by metis
  moreover have "CHR ''?'' \<notin> set (takeWhile (\<lambda>x. x \<noteq> CHR ''?'') (last (split_on CHR ''/'' url)))"
    using set_takeWhileD by fastforce
  ultimately show ?thesis by (simp add: mod_fileName_eq)
qed

lemma mod_fileName_is_spec:
  assumes "CHR ''/'' \<notin> set (dropWhile (\<lambda>x. x \<noteq> CHR ''?'') url)"
  shows "mod_fileName url = spec_fileName url"
proof -
  let ?u = "takeWhile (\<lambda>x. x \<noteq> CHR ''?'') url"
  let ?q = "dropWhile (\<lambda>x. x \<noteq> CHR ''?'') url"
  let ?l = "last (split_on CHR ''/'' ?u)"
  have url: "url = ?u @ ?q" by simp
  have "last (split_on CHR ''/'' url) = ?l @ ?q"
    using last_split_on_append[OF assms, of ?u] by simp
  moreover have nq: "\<forall>x\<in>set ?l. x \<noteq> CHR ''?''"
    using last_split_on_subset[of "CHR ''/''" ?u] set_takeWhileD by fastforce
  moreover have "?q = [] \<or> hd ?q = CHR ''?''"
    using hd_dropWhile[of "\<lambda>x. x \<noteq> CHR ''?''" url] by auto
  ultimately have "takeWhile (\<lambda>x. x \<noteq> CHR ''?'') (last (split_on CHR ''/'' url)) = ?l"
    by (cases ?q) (simp_all add: takeWhile_append2[OF nq[rule_format]] takeWhile_eq_all_conv[THEN iffD2, OF nq])
  then show ?thesis
    by (simp add: mod_fileName_eq spec_fileName_def js_pop_def js_string_def split_on_nonempty)
qed

lemma downloadFile_dest:
  "downloadFile l fetch url d n files = (how, files1) \<Longrightarrow>
   files1 (d @ ''/'' @ n) \<noteq> None \<and> (\<forall>p. p \<noteq> d @ ''/'' @ n \<longrightarrow> files1 p = files p)"
  by (auto simp: downloadFile_def Let_def split: fetch_result.splits)

lemma stage_urls_keeps:
  "files0 = mod_files st \<Longrightarrow> files0 p \<noteq> None \<Longrightarrow> mod_files (stage_urls fetch d st urls) p = files0 p"
proof (induction urls arbitrary: st files0)
  case Nil
  then show ?case by simp
next
  case (Cons url urls)
  show ?case
  proof (cases "mod_exists (mod_files st) d (mod_fileName url)")
    case True
    then show ?thesis using Cons by (simp add: Let_def)
  next
    case False
    then have np: "p \<noteq> d @ ''/'' @ mod_fileName url"
      using Cons.prems by (auto simp: mod_exists_def)
    obtain how files1 where df: "downloadFile False fetch url d (mod_fileName url) (mod_files st) = (how, files1)"
      by (cases "downloadFile False fetch url d (mod_fileName url) (mod_files st)")
    then have "files1 p = mod_files st p"
      using np downloadFile_dest by blast
    then show ?thesis
      using Cons.IH[of files1 _] Cons.prems False df by (simp add: Let_def)
  qed
qed

lemma stage_urls_halted_mono:
  "mod_halted st \<Longrightarrow> mod_halted (stage_urls fetch d st urls)"
  by (induction urls arbitrary: st) (auto simp: Let_def split: prod.splits)

lemma stage_urls_exists:
  "url \<in> set urls \<Longrightarrow> \<not> mod_halted (stage_urls fetch d st urls) \<Longrightarrow>
   mod_exists (mod_files (stage_urls fetch d st urls)) d (mod_fileName url)"
proof (induction urls arbitrary: st)
  case Nil
  then show ?case by simp
next
  case (Cons u urls)
  let ?n = "mod_fileName u"
  show ?case
  proof (cases "mod_exists (mod_files st) d ?n")
    case True
    let ?st1 = "st\<lparr>mod_events := mod_events st @ [ModExists ?n]\<rparr>"
    have run: "stage_urls fetch d st (u # urls) = stage_urls fetch d ?st1 urls"
      using True by (simp add: Let_def)
    show ?thesis
    proof (cases "url \<in> set urls")
      case True
      then show ?thesis using Cons.IH[of ?st1] Cons.prems(2) run by simp
    next
      case False
      then have u: "u = url" using Cons.prems(1) by simp
      have "mod_exists (mod_files (stage_urls fetch d ?st1 urls)) d ?n"
        using stage_urls_keeps[of "mod_files st" ?st1 "d @ ''/'' @ ?n" fetch d urls] True
        by (auto simp: mod_exists_def)
      then show ?thesis using run u by simp
    qed
  next
    case False
    obtain how files1 where df: "downloadFile False fetch u d ?n (mod_files st) = (how, files1)"
      by (cases "downloadFile False fetch u d ?n (mod_files st)")
    have nh: "how \<noteq> Uncaught"
      using Cons.prems(2) False df by (auto simp: Let_def)
    let ?st1 = "st\<lparr>mod_files := files1,
                     mod_events := mod_events st @ [Downloading ?n]
                               @ (if how = Resolved then [Downloaded ?n] else [DownloadFailed u])\<rparr>"
    have run: "stage_urls fetch d st (u # urls) = stage_urls fetch d ?st1 urls"
      using False df nh by (simp add: Let_def)
    show ?thesis
    proof (cases "url \<in> set urls")
      case True
      then show ?thesis using Cons.IH[of ?st1] Cons.prems(2) run by simp
    next
      case False
      then have u: "u = url" using Cons.prems(1) by simp
      have ex: "files1 (d @ ''/'' @ ?n) \<noteq> None" using downloadFile_dest[OF df] by blast
      have "mod_files (stage_urls fetch d ?st1 urls) (d @ ''/'' @ ?n) = files1 (d @ ''/'' @ ?n)"
        using stage_urls_keeps[of files1 ?st1 "d @ ''/'' @ ?n" fetch d urls] ex by simp
      then show ?thesis using run u ex by (simp add: mod_exists_def)
    qed
  qed
qed

lemma stage_urls_noop:
  "\<forall>url\<in>set urls. mod_exists (mod_files st) d (mod_fileName url) \<Longrightarrow>
   mod_files (stage_urls fetch d st urls) = mod_files st
   \<and> mod_halted (stage_urls fetch d st urls) = mod_halted st"
  by (induction urls arbitrary: st) (auto simp: Let_def)

lemma stage_urls_idempotent:
  assumes "\<not> mod_halted (stage_urls fetch1 d st urls)"
  shows "mod_files (stage_urls fetch2 d (stage_urls fetch1 d st urls) urls)
         = mod_files (stage_urls fetch1 d st urls)"
  using stage_urls_noop[of urls "stage_urls fetch1 d st urls" d fetch2]
    stage_urls_exists[OF _ assms] by blast

text \<open>
  C9 at a URL whose query string contains a slash: the name \<open>setupMods\<close> derives is
  taken from the query string, \<open>b\<close>, where the path of the URL names \<open>sodium.jar\<close>; the
  download is stored under \<open>mods/b\<close> and no \<open>mods/sodium.jar\<close> is created.
\<close>

theorem mod_fileName_from_query:
  "mod_fileName ''https://cdn.example/mods/sodium.jar?mirror=a/b'' = ''b''
   \<and> spec_fileName ''https://cdn.example/mods/sodium.jar?mirror=a/b'' = ''sodium.jar''
   \<and> mod_files (setupMods (\<lambda>u. Body ''PK'') ''/r/instances/i/mods''
                  [''https://cdn.example/mods/sodium.jar?mirror=a/b''] None Map.empty)
        ''/r/instances/i/mods/b'' = Some ''PK''
   \<and> mod_files (setupMods (\<lambda>u. Body ''PK'') ''/r/instances/i/mods''
                  [''https://cdn.example/mods/sodium.jar?mirror=a/b''] None Map.empty)
        ''/r/instances/i/mods/sodium.jar'' = None"
  by (simp add: mod_fileName_def spec_fileName_def setupMods_def js_pop_def js_index_def js_string_def
      mod_exists_def downloadFile_def Let_def)

end
